theory Spec2Isabelle
  imports Main "HOL-Library.AList"
begin

section \<open>Cards and the shared deck (card.py)\<close>

datatype CARD = AMBASSADOR | ASSASSIN | CAPTAIN | CONTESSA | DUKE

text \<open>The exceptions the modelled code can raise.\<close>

datatype error = ValueError | PlayerError | AssertionError | InvalidState | NotImplementedError

text \<open>
  A \<^verbatim>\<open>Counter[CARD]\<close> is a dictionary from cards to integers. Its insertion order
  decides the order of \<^verbatim>\<open>elements()\<close>, which \<^verbatim>\<open>draw\<close> indexes, so it is an
  association list: a new key is appended, an existing key is updated in place.
\<close>

type_synonym counter = "(CARD \<times> int) list"

definition getitem :: "counter \<Rightarrow> CARD \<Rightarrow> int" where
  \<comment> \<open>\<^verbatim>\<open>c[k]\<close>: a missing key reads as 0 and is not inserted.\<close>
  "getitem c k = (case map_of c k of None \<Rightarrow> 0 | Some n \<Rightarrow> n)"

definition contains :: "counter \<Rightarrow> CARD \<Rightarrow> bool" where
  \<comment> \<open>\<^verbatim>\<open>k in c\<close>: the key is present, whatever its count.\<close>
  "contains c k = (case map_of c k of None \<Rightarrow> False | Some n \<Rightarrow> True)"

definition setitem :: "counter \<Rightarrow> CARD \<Rightarrow> int \<Rightarrow> counter" where
  \<comment> \<open>\<^verbatim>\<open>c[k] = v\<close>\<close>
  "setitem c k v = AList.update k v c"

definition delitem :: "counter \<Rightarrow> CARD \<Rightarrow> counter" where
  \<comment> \<open>\<^verbatim>\<open>del c[k]\<close>\<close>
  "delitem c k = AList.delete k c"

definition elements :: "counter \<Rightarrow> CARD list" where
  \<comment> \<open>each key repeated as many times as its count; counts below one are skipped\<close>
  "elements c = concat (map (\<lambda>(k, n). replicate (nat n) k) c)"

definition total :: "counter \<Rightarrow> int" where
  "total c = sum_list (map snd c)"

definition decrement :: "counter \<Rightarrow> CARD \<Rightarrow> counter" where
  \<comment> \<open>\<^verbatim>\<open>c[k] -= 1; if not c[k]: del c[k]\<close>\<close>
  "decrement c k =
     (let c1 = setitem c k (getitem c k - 1)
      in if getitem c1 k = 0 then delitem c1 k else c1)"

definition randint :: "int \<Rightarrow> int \<Rightarrow> nat \<Rightarrow> error + int" where
  \<comment> \<open>\<^verbatim>\<open>np.random.randint(low, high)\<close>: an integer of the half-open range
      \<open>[low, high)\<close>, chosen by the entropy \<open>r\<close>; numpy raises ValueError when
      \<open>low >= high\<close>.\<close>
  "randint low high r =
     (if high \<le> low then Inl ValueError else Inr (low + int r mod (high - low)))"

definition draw :: "counter \<Rightarrow> nat \<Rightarrow> error + (CARD \<times> counter)" where
  "draw d r =
     (let cs = elements d
      in case randint 0 (int (length cs) - 1) r of
           Inl e \<Rightarrow> Inl e
         | Inr idx \<Rightarrow> (let crd = cs ! nat idx in Inr (crd, decrement d crd)))"

section \<open>Players (player.py)\<close>

record Player =
  coins :: int
  cards :: counter
  block_passed :: bool
  challenge_passed :: bool
  block_challenge_passed :: bool

text \<open>
  The game owns one deck, which every player references, and the players in seating
  order. A player is named by its seat; \<^verbatim>\<open>player.next\<close> is the following seat of
  the ring, as the environment links it (\<^verbatim>\<open>players[(i + 1) % len(players)]\<close>).
\<close>

record world =
  deck :: counter
  players :: "Player list"

definition next_seat :: "world \<Rightarrow> nat \<Rightarrow> nat" where
  "next_seat w p = (p + 1) mod length (players w)"

definition upd_player :: "nat \<Rightarrow> (Player \<Rightarrow> Player) \<Rightarrow> world \<Rightarrow> world" where
  "upd_player p f w = w\<lparr>players := (players w)[p := f (players w ! p)]\<rparr>"

definition hand :: "world \<Rightarrow> nat \<Rightarrow> counter" where
  "hand w p = cards (players w ! p)"

definition alive :: "world \<Rightarrow> nat \<Rightarrow> bool" where
  "alive w p = (0 < total (hand w p))"

function next_alive_loop :: "world \<Rightarrow> nat \<Rightarrow> nat \<Rightarrow> nat \<Rightarrow> error + nat" where
  "next_alive_loop w self k player =
     (if player = self \<or> length (players w) \<le> k then Inl PlayerError
      else if alive w player then Inr player
      else next_alive_loop w self (Suc k) (next_seat w player))"
  by pat_completeness auto
termination
  by (relation "measure (\<lambda>(w, self, k, player). length (players w) - k)") auto

definition next_alive :: "world \<Rightarrow> nat \<Rightarrow> error + nat" where
  \<comment> \<open>the walk visits seat \<open>self + k\<close> at step \<open>k\<close> and is back at \<open>self\<close> after
      as many steps as there are seats\<close>
  "next_alive w self = next_alive_loop w self 1 (next_seat w self)"

definition Player_draw :: "nat \<Rightarrow> nat \<Rightarrow> world \<Rightarrow> error option \<times> world" where
  "Player_draw p r w =
     (case draw (deck w) r of
        Inl e \<Rightarrow> (Some e, w)
      | Inr (crd, d) \<Rightarrow>
          (None, upd_player p (\<lambda>pl. pl\<lparr>cards := setitem (cards pl) crd (getitem (cards pl) crd + 1)\<rparr>)
                   (w\<lparr>deck := d\<rparr>)))"

definition putback :: "nat \<Rightarrow> CARD \<Rightarrow> world \<Rightarrow> error option \<times> world" where
  "putback p crd w =
     (if \<not> contains (hand w p) crd then (Some AssertionError, w)
      else (None, (upd_player p (\<lambda>pl. pl\<lparr>cards := decrement (cards pl) crd\<rparr>) w)
                    \<lparr>deck := setitem (deck w) crd (getitem (deck w) crd + 1)\<rparr>))"

definition lose :: "nat \<Rightarrow> CARD \<Rightarrow> world \<Rightarrow> error option \<times> world" where
  "lose p crd w =
     (if \<not> contains (hand w p) crd then (Some AssertionError, w)
      else (None, upd_player p (\<lambda>pl. pl\<lparr>cards := decrement (cards pl) crd\<rparr>) w))"

function enum_loop :: "world \<Rightarrow> bool \<Rightarrow> nat \<Rightarrow> nat \<Rightarrow> nat \<Rightarrow> (nat \<times> nat) list" where
  "enum_loop w skip_dead self i player =
     (if player = self \<or> length (players w) \<le> i then []
      else (if \<not> skip_dead \<or> alive w player then [(i, player)] else [])
           @ enum_loop w skip_dead self (Suc i) (next_seat w player))"
  by pat_completeness auto
termination
  by (relation "measure (\<lambda>(w, skip_dead, self, i, player). length (players w) - i)") auto

definition enum :: "world \<Rightarrow> nat \<Rightarrow> bool \<Rightarrow> bool \<Rightarrow> (nat \<times> nat) list" where
  "enum w self skip_dead skip_self =
     (if \<not> skip_self \<and> (\<not> skip_dead \<or> alive w self) then [(0, self)] else [])
     @ enum_loop w skip_dead self 1 (next_seat w self)"

section \<open>The action catalogue (action.py)\<close>

datatype ACT = SELF | TARGET | BLOCK | CHALLENGE | LOSE

text \<open>The fields of \<^verbatim>\<open>ActionTypes\<close>; an action is identified by its name.\<close>

datatype Action =
    LOSE_AMBASSADOR | LOSE_ASSASSIN | LOSE_CAPTAIN | LOSE_CONTESSA | LOSE_DUKE
  | CHALLENGE_PASS | CHALLENGE_CALL
  | BLOCK_PASS | BLOCK_ASSASSINATE | BLOCK_FOREIGN_AID | BLOCK_STEAL_AMB | BLOCK_STEAL_CAP
  | EXCHANGE | FOREIGN_AID | INCOME | TAX
  | ASSASSINATE | COUP | STEAL

fun act_type :: "Action \<Rightarrow> ACT" where
  "act_type LOSE_AMBASSADOR = LOSE"
| "act_type LOSE_ASSASSIN = LOSE"
| "act_type LOSE_CAPTAIN = LOSE"
| "act_type LOSE_CONTESSA = LOSE"
| "act_type LOSE_DUKE = LOSE"
| "act_type CHALLENGE_PASS = CHALLENGE"
| "act_type CHALLENGE_CALL = CHALLENGE"
| "act_type BLOCK_PASS = BLOCK"
| "act_type BLOCK_ASSASSINATE = BLOCK"
| "act_type BLOCK_FOREIGN_AID = BLOCK"
| "act_type BLOCK_STEAL_AMB = BLOCK"
| "act_type BLOCK_STEAL_CAP = BLOCK"
| "act_type EXCHANGE = SELF"
| "act_type FOREIGN_AID = SELF"
| "act_type INCOME = SELF"
| "act_type TAX = SELF"
| "act_type ASSASSINATE = TARGET"
| "act_type COUP = TARGET"
| "act_type STEAL = TARGET"

fun act_card :: "Action \<Rightarrow> CARD option" where
  "act_card LOSE_AMBASSADOR = Some AMBASSADOR"
| "act_card LOSE_ASSASSIN = Some ASSASSIN"
| "act_card LOSE_CAPTAIN = Some CAPTAIN"
| "act_card LOSE_CONTESSA = Some CONTESSA"
| "act_card LOSE_DUKE = Some DUKE"
| "act_card CHALLENGE_PASS = None"
| "act_card CHALLENGE_CALL = None"
| "act_card BLOCK_PASS = None"
| "act_card BLOCK_ASSASSINATE = Some CONTESSA"
| "act_card BLOCK_FOREIGN_AID = Some DUKE"
| "act_card BLOCK_STEAL_AMB = Some AMBASSADOR"
| "act_card BLOCK_STEAL_CAP = Some CAPTAIN"
| "act_card EXCHANGE = Some AMBASSADOR"
| "act_card FOREIGN_AID = None"
| "act_card INCOME = None"
| "act_card TAX = Some DUKE"
| "act_card ASSASSINATE = Some ASSASSIN"
| "act_card COUP = None"
| "act_card STEAL = Some CAPTAIN"

fun act_block :: "Action \<Rightarrow> Action list" where
  "act_block FOREIGN_AID = [BLOCK_PASS, BLOCK_FOREIGN_AID]"
| "act_block ASSASSINATE = [BLOCK_PASS, BLOCK_ASSASSINATE]"
| "act_block STEAL = [BLOCK_PASS, BLOCK_STEAL_AMB, BLOCK_STEAL_CAP]"
| "act_block _ = []"

definition ACTION :: "Action list" where
  \<comment> \<open>iteration over \<^verbatim>\<open>ACTION\<close> follows the order of the dataclass fields\<close>
  "ACTION =
     [LOSE_AMBASSADOR, LOSE_ASSASSIN, LOSE_CAPTAIN, LOSE_CONTESSA, LOSE_DUKE,
      CHALLENGE_PASS, CHALLENGE_CALL,
      BLOCK_PASS, BLOCK_ASSASSINATE, BLOCK_FOREIGN_AID, BLOCK_STEAL_AMB, BLOCK_STEAL_CAP,
      EXCHANGE, FOREIGN_AID, INCOME, TAX,
      ASSASSINATE, COUP, STEAL]"

section \<open>Turn records and states (state.py)\<close>

record ActInfo =
  actor :: nat
  action :: Action
  target :: nat

datatype challenge_type = action_challenge | block_challenge

record ChallengeInfo =
  chl_type :: challenge_type
  challenger :: nat
  loser :: nat

record BlockInfo =
  blocker :: nat
  block_action :: Action

text \<open>
  One constructor per state class, with the fields in the order the class declares
  them; the first field of every class but \<^verbatim>\<open>EndTurn\<close> and \<^verbatim>\<open>GameOver\<close> is
  the responder \<^verbatim>\<open>player\<close>, and the last field of \<^verbatim>\<open>EndTurn\<close> is \<^verbatim>\<open>_player\<close>.
\<close>

datatype Turn =
    Start nat
  | Challenge nat ActInfo
  | ChallengeResolve nat ActInfo ChallengeInfo
  | ForeignAidBlock nat ActInfo "ChallengeInfo option"
  | TargetBlock nat ActInfo "ChallengeInfo option"
  | BlockChallenge nat BlockInfo ActInfo "ChallengeInfo option"
  | BlockChallengeResolve nat BlockInfo ChallengeInfo ActInfo "ChallengeInfo option"
  | ActionResolve nat ActInfo "ChallengeInfo option" "BlockInfo option" "ChallengeInfo option"
  | ExchangeResolve nat ActInfo "ChallengeInfo option"
  | ExchangeTwoResolve nat ActInfo "ChallengeInfo option"
  | EndTurn ActInfo "ChallengeInfo option" "BlockInfo option" "ChallengeInfo option" "nat option"
  | GameOver

type_synonym outcome = "(error + Turn) \<times> world"

definition add_coins :: "nat \<Rightarrow> int \<Rightarrow> world \<Rightarrow> world" where
  \<comment> \<open>\<^verbatim>\<open>player.coins += k\<close>\<close>
  "add_coins p k w = upd_player p (\<lambda>pl. pl\<lparr>coins := coins pl + k\<rparr>) w"

definition resolve_steal :: "ActInfo \<Rightarrow> world \<Rightarrow> world" where
  "resolve_steal act w =
     (let amount = min 2 (coins (players w ! target act))
      in add_coins (target act) (- amount) (add_coins (actor act) amount w))"

definition Start_action_mask :: "world \<Rightarrow> nat \<Rightarrow> (Action \<times> nat) list" where
  "Start_action_mask w player =
     (let coup = (if 7 \<le> coins (players w ! player)
                  then map (\<lambda>(i, other). (COUP, i)) (enum w player True True) else [])
      in if 7 \<le> coins (players w ! player) \<and> 10 \<le> coins (players w ! player) then coup
         else coup
              @ concat (map (\<lambda>(i, other).
                   (if 3 \<le> coins (players w ! player) then [(ASSASSINATE, i)] else [])
                   @ (if 0 < coins (players w ! other) then [(STEAL, i)] else []))
                 (enum w player True True))
              @ map (\<lambda>a. (a, 0)) (filter (\<lambda>a. act_type a = SELF) ACTION))"

text \<open>
  A step returns the next state or the exception it raised, together with the world as
  the step left it: what was mutated before an exception stays mutated. The steps that
  draw take the entropy of their (at most two) draws.
\<close>

definition draw_twice :: "nat \<Rightarrow> nat \<Rightarrow> nat \<Rightarrow> world \<Rightarrow> error option \<times> world" where
  \<comment> \<open>\<^verbatim>\<open>player.draw(); player.draw()\<close>\<close>
  "draw_twice p r1 r2 w =
     (case Player_draw p r1 w of
        (Some e, w1) \<Rightarrow> (Some e, w1)
      | (None, w1) \<Rightarrow> Player_draw p r2 w1)"

definition Start_step :: "nat \<Rightarrow> Action \<Rightarrow> nat \<Rightarrow> world \<Rightarrow> outcome" where
  "Start_step player mv tgt w =
     (let act = \<lparr>actor = player, action = mv, target = tgt\<rparr>
      in if mv = INCOME then (Inr (EndTurn act None None None None), add_coins player 1 w)
         else if mv = FOREIGN_AID then
           (case next_alive w player of
              Inl e \<Rightarrow> (Inl e, w)
            | Inr nxt \<Rightarrow> (Inr (ForeignAidBlock nxt act None), w))
         else if mv = COUP then
           (Inr (ActionResolve tgt act None None None), add_coins player (- 7) w)
         else
           (let w1 = (if mv = ASSASSINATE then add_coins player (- 3) w else w)
            in if act_card mv \<noteq> None then
                 (case next_alive w1 player of
                    Inl e \<Rightarrow> (Inl e, w1)
                  | Inr nxt \<Rightarrow> (Inr (Challenge nxt act), w1))
               else (Inl InvalidState, w1)))"

definition prove_or_lose :: "nat \<Rightarrow> nat \<Rightarrow> CARD \<Rightarrow> nat \<Rightarrow> world \<Rightarrow> (error + nat) \<times> world" where
  \<comment> \<open>the branch shared by both \<^verbatim>\<open>CHALLENGE_CALL\<close> handlers: a claimant holding the
      card puts it back and draws, and the challenger loses; otherwise the claimant
      loses\<close>
  "prove_or_lose claimant player crd r w =
     (if getitem (hand w claimant) crd \<noteq> 0 then
        (case putback claimant crd w of
           (Some e, w1) \<Rightarrow> (Inl e, w1)
         | (None, w1) \<Rightarrow>
             (case Player_draw claimant r w1 of
                (Some e, w2) \<Rightarrow> (Inl e, w2)
              | (None, w2) \<Rightarrow> (Inr player, w2)))
      else (Inr claimant, w))"

definition Challenge_step :: "nat \<Rightarrow> ActInfo \<Rightarrow> Action \<Rightarrow> nat \<Rightarrow> nat \<Rightarrow> world \<Rightarrow> outcome" where
  "Challenge_step player act mv r1 r2 w =
     (if mv = CHALLENGE_PASS then
        (let w1 = upd_player player (\<lambda>pl. pl\<lparr>challenge_passed := True\<rparr>) w
         in case next_alive w1 player of
              Inl e \<Rightarrow> (Inl e, w1)
            | Inr nxt \<Rightarrow>
                if nxt = actor act then
                  (if action act = EXCHANGE then
                     (case draw_twice (actor act) r1 r2 w1 of
                        (Some e, w2) \<Rightarrow> (Inl e, w2)
                      | (None, w2) \<Rightarrow> (Inr (ExchangeResolve (actor act) act None), w2))
                   else if action act = TAX then
                     (Inr (EndTurn act None None None None), add_coins (actor act) 3 w1)
                   else if act_block (action act) \<noteq> [] then
                     (Inr (TargetBlock (target act) act None), w1)
                   else (Inl InvalidState, w1))
                else (Inr (Challenge nxt act), w1))
      else if mv = CHALLENGE_CALL then
        (case act_card (action act) of
           None \<Rightarrow> (Inl AssertionError, w)
         | Some crd \<Rightarrow>
             (case prove_or_lose (actor act) player crd r1 w of
                (Inl e, w1) \<Rightarrow> (Inl e, w1)
              | (Inr l, w1) \<Rightarrow>
                  (let chl = \<lparr>chl_type = action_challenge, challenger = player, loser = l\<rparr>
                   in (Inr (ChallengeResolve l act chl), w1))))
      else (Inl InvalidState, w))"

definition ChallengeResolve_step ::
  "nat \<Rightarrow> ActInfo \<Rightarrow> ChallengeInfo \<Rightarrow> Action \<Rightarrow> nat \<Rightarrow> nat \<Rightarrow> world \<Rightarrow> outcome" where
  "ChallengeResolve_step player act chl mv r1 r2 w =
     (case act_card mv of
        None \<Rightarrow> (Inl AssertionError, w)
      | Some crd \<Rightarrow>
          (case lose player crd w of
             (Some e, w1) \<Rightarrow> (Inl e, w1)
           | (None, w1) \<Rightarrow>
               if loser chl = actor act then (Inr (EndTurn act (Some chl) None None None), w1)
               else if action act = TAX then
                 (Inr (EndTurn act (Some chl) None None None), add_coins (actor act) 3 w1)
               else if action act = EXCHANGE then
                 (case draw_twice (actor act) r1 r2 w1 of
                    (Some e, w2) \<Rightarrow> (Inl e, w2)
                  | (None, w2) \<Rightarrow> (Inr (ExchangeResolve (actor act) act None), w2))
               else if action act = STEAL \<and> \<not> alive w1 (target act) then
                 (Inr (EndTurn act (Some chl) None None None), resolve_steal act w1)
               else if action act = ASSASSINATE \<and> \<not> alive w1 (target act) then
                 (Inr (EndTurn act (Some chl) None None None), w1)
               else if act_block (action act) \<noteq> [] then
                 (Inr (TargetBlock (target act) act None), w1)
               else (Inl InvalidState, w1)))"

definition ForeignAidBlock_step ::
  "nat \<Rightarrow> ActInfo \<Rightarrow> ChallengeInfo option \<Rightarrow> Action \<Rightarrow> world \<Rightarrow> outcome" where
  "ForeignAidBlock_step player act chl mv w =
     (if mv = BLOCK_PASS then
        (let w1 = upd_player player (\<lambda>pl. pl\<lparr>block_passed := True\<rparr>) w
         in case next_alive w1 player of
              Inl e \<Rightarrow> (Inl e, w1)
            | Inr nxt \<Rightarrow>
                if nxt = actor act
                then (Inr (EndTurn act chl None None None), add_coins (actor act) 2 w1)
                else (Inr (ForeignAidBlock nxt act chl), w1))
      else if mv = BLOCK_FOREIGN_AID then
        (let block = \<lparr>blocker = player, block_action = BLOCK_FOREIGN_AID\<rparr>
         in (Inr (BlockChallenge player block act chl), w))
      else (Inl InvalidState, w))"

definition TargetBlock_step ::
  "nat \<Rightarrow> ActInfo \<Rightarrow> ChallengeInfo option \<Rightarrow> Action \<Rightarrow> world \<Rightarrow> outcome" where
  "TargetBlock_step player act chl mv w =
     (if mv = BLOCK_PASS then
        (let w1 = upd_player player (\<lambda>pl. pl\<lparr>block_passed := True\<rparr>) w
         in if action act = STEAL then (Inr (EndTurn act chl None None None), resolve_steal act w1)
            else if action act = ASSASSINATE
            then (Inr (ActionResolve (target act) act chl None None), w1)
            else (Inl InvalidState, w1))
      else
        (let block = \<lparr>blocker = player, block_action = mv\<rparr>
         in (Inr (BlockChallenge player block act chl), w)))"

definition BlockChallenge_step ::
  "nat \<Rightarrow> BlockInfo \<Rightarrow> ActInfo \<Rightarrow> ChallengeInfo option \<Rightarrow> Action \<Rightarrow> nat \<Rightarrow> world \<Rightarrow> outcome" where
  "BlockChallenge_step player block act chl mv r w =
     (if mv = CHALLENGE_PASS then
        (let w1 = upd_player player (\<lambda>pl. pl\<lparr>challenge_passed := True\<rparr>) w
         in case next_alive w1 player of
              Inl e \<Rightarrow> (Inl e, w1)
            | Inr nxt \<Rightarrow>
                if nxt = actor act then (Inr (EndTurn act chl (Some block) None None), w1)
                else (Inr (BlockChallenge nxt block act chl), w1))
      else if mv = CHALLENGE_CALL then
        (case act_card (block_action block) of
           None \<Rightarrow> (Inl AssertionError, w)
         | Some crd \<Rightarrow>
             (case prove_or_lose (blocker block) player crd r w of
                (Inl e, w1) \<Rightarrow> (Inl e, w1)
              | (Inr l, w1) \<Rightarrow>
                  (let bchl = \<lparr>chl_type = block_challenge, challenger = player, loser = l\<rparr>
                   in (Inr (BlockChallengeResolve l block bchl act chl), w1))))
      else (Inl InvalidState, w))"

definition toEndTurn :: "BlockInfo \<Rightarrow> ChallengeInfo \<Rightarrow> ActInfo \<Rightarrow> ChallengeInfo option \<Rightarrow> Turn" where
  "toEndTurn block bchl act chl = EndTurn act chl (Some block) (Some bchl) None"

definition BlockChallengeResolve_step ::
  "nat \<Rightarrow> BlockInfo \<Rightarrow> ChallengeInfo \<Rightarrow> ActInfo \<Rightarrow> ChallengeInfo option \<Rightarrow> Action \<Rightarrow> world
     \<Rightarrow> outcome" where
  "BlockChallengeResolve_step player block bchl act chl mv w =
     (case act_card mv of
        None \<Rightarrow> (Inl AssertionError, w)
      | Some crd \<Rightarrow>
          (case lose player crd w of
             (Some e, w1) \<Rightarrow> (Inl e, w1)
           | (None, w1) \<Rightarrow>
               if loser bchl = challenger bchl then (Inr (toEndTurn block bchl act chl), w1)
               else if action act = FOREIGN_AID then
                 (Inr (toEndTurn block bchl act chl), add_coins (actor act) 2 w1)
               else if action act = STEAL then
                 (Inr (toEndTurn block bchl act chl), resolve_steal act w1)
               else if action act = ASSASSINATE then
                 (if \<not> alive w1 (target act) then (Inr (toEndTurn block bchl act chl), w1)
                  else (Inr (ActionResolve (target act) act chl (Some block) (Some bchl)), w1))
               else (Inl InvalidState, w1)))"

definition ActionResolve_step ::
  "nat \<Rightarrow> ActInfo \<Rightarrow> ChallengeInfo option \<Rightarrow> BlockInfo option \<Rightarrow> ChallengeInfo option
     \<Rightarrow> Action \<Rightarrow> world \<Rightarrow> outcome" where
  "ActionResolve_step player act chl block bchl mv w =
     (case act_card mv of
        None \<Rightarrow> (Inl AssertionError, w)
      | Some crd \<Rightarrow>
          (case lose player crd w of
             (Some e, w1) \<Rightarrow> (Inl e, w1)
           | (None, w1) \<Rightarrow> (Inr (EndTurn act chl block bchl None), w1)))"

definition ExchangeResolve_step ::
  "nat \<Rightarrow> ActInfo \<Rightarrow> ChallengeInfo option \<Rightarrow> Action \<Rightarrow> world \<Rightarrow> outcome" where
  "ExchangeResolve_step player act chl mv w =
     (case act_card mv of
        None \<Rightarrow> (Inl AssertionError, w)
      | Some crd \<Rightarrow>
          (case putback player crd w of
             (Some e, w1) \<Rightarrow> (Inl e, w1)
           | (None, w1) \<Rightarrow> (Inr (ExchangeTwoResolve player act chl), w1)))"

definition ExchangeTwoResolve_step ::
  "nat \<Rightarrow> ActInfo \<Rightarrow> ChallengeInfo option \<Rightarrow> Action \<Rightarrow> world \<Rightarrow> outcome" where
  "ExchangeTwoResolve_step player act chl mv w =
     (case act_card mv of
        None \<Rightarrow> (Inl AssertionError, w)
      | Some crd \<Rightarrow>
          (case putback player crd w of
             (Some e, w1) \<Rightarrow> (Inl e, w1)
           | (None, w1) \<Rightarrow> (Inr (EndTurn act chl None None None), w1)))"

fun step :: "Turn \<Rightarrow> Action \<Rightarrow> nat \<Rightarrow> nat \<Rightarrow> nat \<Rightarrow> world \<Rightarrow> outcome" where
  "step (Start p) mv tgt r1 r2 w = Start_step p mv tgt w"
| "step (Challenge p act) mv tgt r1 r2 w = Challenge_step p act mv r1 r2 w"
| "step (ChallengeResolve p act chl) mv tgt r1 r2 w = ChallengeResolve_step p act chl mv r1 r2 w"
| "step (ForeignAidBlock p act chl) mv tgt r1 r2 w = ForeignAidBlock_step p act chl mv w"
| "step (TargetBlock p act chl) mv tgt r1 r2 w = TargetBlock_step p act chl mv w"
| "step (BlockChallenge p block act chl) mv tgt r1 r2 w = BlockChallenge_step p block act chl mv r1 w"
| "step (BlockChallengeResolve p block bchl act chl) mv tgt r1 r2 w =
     BlockChallengeResolve_step p block bchl act chl mv w"
| "step (ActionResolve p act chl block bchl) mv tgt r1 r2 w =
     ActionResolve_step p act chl block bchl mv w"
| "step (ExchangeResolve p act chl) mv tgt r1 r2 w = ExchangeResolve_step p act chl mv w"
| "step (ExchangeTwoResolve p act chl) mv tgt r1 r2 w = ExchangeTwoResolve_step p act chl mv w"
| "step (EndTurn act chl block bchl p) mv tgt r1 r2 w = (Inl NotImplementedError, w)"
| "step GameOver mv tgt r1 r2 w = (Inr GameOver, w)"

definition observe_challenge :: "ChallengeInfo option \<Rightarrow> nat \<Rightarrow> world \<Rightarrow> bool list" where
  "observe_challenge chl player w =
     (case chl of
        Some c \<Rightarrow>
          (case chl_type c of
             action_challenge \<Rightarrow> map (\<lambda>(i, nxt). challenge_passed (players w ! nxt)) (enum w player False False)
           | block_challenge \<Rightarrow>
               map (\<lambda>(i, nxt). block_challenge_passed (players w ! nxt)) (enum w player False False))
          @ map (\<lambda>(i, nxt). challenger c = nxt) (enum w player False False)
          @ map (\<lambda>(i, nxt). loser c = nxt) (enum w player False False)
      | None \<Rightarrow>
          map (\<lambda>_. False) (enum w player False False)
          @ map (\<lambda>_. False) (enum w player False False)
          @ map (\<lambda>_. False) (enum w player False False))"

section \<open>Well-formedness and card accounting\<close>

text \<open>Representation invariant of a dictionary: no key occurs twice.\<close>

definition keys_ok :: "counter \<Rightarrow> bool" where
  "keys_ok c = distinct (map fst c)"

text \<open>
  A hand built by \<^verbatim>\<open>draw\<close>, \<^verbatim>\<open>putback\<close> and \<^verbatim>\<open>lose\<close> stores positive counts only:
  a key whose count reaches zero is deleted.
\<close>

definition counts_ok :: "counter \<Rightarrow> bool" where
  "counts_ok c = list_all (\<lambda>(k, n). 0 < n) c"

text \<open>Copies of a role held over all players, and the quantity the conservation law is about.\<close>

definition held :: "world \<Rightarrow> CARD \<Rightarrow> int" where
  "held w role = sum_list (map (\<lambda>pl. getitem (cards pl) role) (players w))"

definition accounted :: "world \<Rightarrow> (CARD \<Rightarrow> int) \<Rightarrow> CARD \<Rightarrow> int" where
  "accounted w lost role = getitem (deck w) role + held w role + lost role"

text \<open>Concrete games used to evaluate the model.\<close>

definition new_player :: "int \<Rightarrow> counter \<Rightarrow> Player" where
  "new_player c h =
     \<lparr>coins = c, cards = h, block_passed = False, challenge_passed = False,
      block_challenge_passed = False\<rparr>"

definition table3 :: world where
  "table3 =
     \<lparr>deck = [(CAPTAIN, 2), (DUKE, 1)],
      players = [new_player 2 [(DUKE, 2)], new_player 2 [(AMBASSADOR, 1)],
                 new_player 2 [(CONTESSA, 2)]]\<rparr>"

definition table2 :: world where
  "table2 =
     \<lparr>deck = [(CAPTAIN, 2), (DUKE, 1)],
      players = [new_player 0 [(DUKE, 1)], new_player 2 [(AMBASSADOR, 1)]]\<rparr>"

definition rich3 :: world where
  "rich3 =
     \<lparr>deck = [(CAPTAIN, 2), (DUKE, 1)],
      players = [new_player 10 [(DUKE, 2)], new_player 2 [],
                 new_player 2 [(CONTESSA, 2)]]\<rparr>"

definition aid_act :: ActInfo where
  "aid_act = \<lparr>actor = 0, action = FOREIGN_AID, target = 0\<rparr>"

definition duke_block :: BlockInfo where
  "duke_block = \<lparr>blocker = 1, block_action = BLOCK_FOREIGN_AID\<rparr>"

definition coup_act :: ActInfo where
  "coup_act = \<lparr>actor = 0, action = COUP, target = 1\<rparr>"

definition steal_act :: ActInfo where
  "steal_act = \<lparr>actor = 0, action = STEAL, target = 1\<rparr>"

definition steal_chl :: ChallengeInfo where
  "steal_chl = \<lparr>chl_type = action_challenge, challenger = 1, loser = 1\<rparr>"

definition steal3 :: world where
  "steal3 =
     \<lparr>deck = [(CAPTAIN, 1), (DUKE, 1)],
      players = [new_player 2 [(CAPTAIN, 2)], new_player 2 [(AMBASSADOR, 1)],
                 new_player 2 [(CONTESSA, 2)]]\<rparr>"

definition tax_act :: ActInfo where
  "tax_act = \<lparr>actor = 0, action = TAX, target = 0\<rparr>"

section \<open>Dictionary lemmas\<close>

lemma getitem_setitem: "getitem (setitem c k v) k' = (if k' = k then v else getitem c k')"
  by (simp add: getitem_def setitem_def update_conv')

lemma getitem_delitem: "getitem (delitem c k) k' = (if k' = k then 0 else getitem c k')"
  by (simp add: getitem_def delitem_def delete_conv')

lemma getitem_decrement:
  "getitem (decrement c k) k' = (if k' = k then getitem c k - 1 else getitem c k')"
  by (simp add: decrement_def Let_def getitem_setitem getitem_delitem)

lemma keys_ok_setitem: "keys_ok c \<Longrightarrow> keys_ok (setitem c k v)"
  by (simp add: keys_ok_def setitem_def distinct_update)

lemma keys_ok_delitem: "keys_ok c \<Longrightarrow> keys_ok (delitem c k)"
  by (simp add: keys_ok_def delitem_def distinct_delete)

lemma keys_ok_decrement: "keys_ok c \<Longrightarrow> keys_ok (decrement c k)"
  by (simp add: decrement_def Let_def keys_ok_setitem keys_ok_delitem)

lemma total_update:
  "distinct (map fst c) \<Longrightarrow> sum_list (map snd (AList.update k v c)) = sum_list (map snd c) - getitem c k + v"
proof (induction c)
  case Nil
  then show ?case by (simp add: getitem_def)
next
  case (Cons a c)
  obtain k0 n0 where a: "a = (k0, n0)" by (cases a)
  show ?case
  proof (cases "k0 = k")
    case True
    then show ?thesis using a by (simp add: getitem_def)
  next
    case False
    then show ?thesis using Cons a by (simp add: getitem_def)
  qed
qed

lemma total_setitem: "keys_ok c \<Longrightarrow> total (setitem c k v) = total c - getitem c k + v"
  by (simp add: keys_ok_def total_def setitem_def total_update)

lemma notin_getitem: "k \<notin> fst ` set c \<Longrightarrow> getitem c k = 0"
  by (simp add: getitem_def map_of_eq_None_iff[THEN iffD2])

lemma total_delete:
  "distinct (map fst c) \<Longrightarrow> sum_list (map snd (AList.delete k c)) = sum_list (map snd c) - getitem c k"
proof (induction c)
  case Nil
  then show ?case by (simp add: getitem_def)
next
  case (Cons a c)
  obtain k0 n0 where a: "a = (k0, n0)" by (cases a)
  show ?case
  proof (cases "k0 = k")
    case True
    then have "k \<notin> fst ` set c" using Cons.prems a by auto
    then have "AList.delete k c = c" by simp
    then show ?thesis using a True by (simp add: getitem_def)
  next
    case False
    then show ?thesis using Cons a by (simp add: getitem_def)
  qed
qed

lemma total_delitem: "keys_ok c \<Longrightarrow> total (delitem c k) = total c - getitem c k"
  by (simp add: keys_ok_def total_def delitem_def total_delete)

lemma total_decrement: "keys_ok c \<Longrightarrow> total (decrement c k) = total c - 1"
  by (simp add: decrement_def Let_def total_setitem total_delitem keys_ok_setitem getitem_setitem)

lemma contains_iff: "contains c k \<longleftrightarrow> k \<in> fst ` set c"
  by (simp add: contains_def map_of_eq_None_iff split: option.splits) (metis map_of_eq_None_iff option.distinct(1) option.exhaust)

lemma getitem_pos: "counts_ok c \<Longrightarrow> k \<in> fst ` set c \<Longrightarrow> 0 < getitem c k"
proof (induction c)
  case Nil
  then show ?case by simp
next
  case (Cons a c)
  then show ?case by (cases a) (auto simp: counts_ok_def getitem_def)
qed

lemma contains_counts_ok:
  assumes "counts_ok c"
  shows "contains c k \<longleftrightarrow> 0 < getitem c k"
proof (cases "k \<in> fst ` set c")
  case True
  then show ?thesis using getitem_pos[OF assms, of k] by (simp add: contains_iff)
next
  case False
  then show ?thesis using notin_getitem[of k c] by (simp add: contains_iff)
qed

lemma getitem_nonzero_contains: "getitem c k \<noteq> 0 \<Longrightarrow> contains c k"
  by (auto simp: getitem_def contains_def split: option.splits)

section \<open>Player operations\<close>

lemma sum_list_map_update:
  fixes g :: "'a \<Rightarrow> int"
  shows "p < length xs \<Longrightarrow> sum_list (map g (xs[p := y])) = sum_list (map g xs) - g (xs ! p) + g y"
proof (induction xs arbitrary: p)
  case Nil
  then show ?case by simp
next
  case (Cons x xs)
  then show ?case by (cases p) simp_all
qed

lemma held_upd_player:
  "p < length (players w) \<Longrightarrow>
   held (upd_player p f w) role
     = held w role - getitem (hand w p) role + getitem (cards (f (players w ! p))) role"
  by (simp add: held_def upd_player_def hand_def sum_list_map_update)

lemma hand_upd_player:
  "p < length (players w) \<Longrightarrow> hand (upd_player p f w) q = (if q = p then cards (f (players w ! p)) else hand w q)"
  by (simp add: hand_def upd_player_def)

lemma deck_upd_player: "deck (upd_player p f w) = deck w"
  by (simp add: upd_player_def)

lemma length_upd_player: "length (players (upd_player p f w)) = length (players w)"
  by (simp add: upd_player_def)

lemma draw_Inr:
  "draw d r = Inr (crd, d') \<Longrightarrow> d' = decrement d crd"
  by (auto simp: draw_def Let_def split: sum.splits)

lemma Player_draw_cases:
  "(\<exists>e. Player_draw p r w = (Some e, w)) \<or>
   (\<exists>crd. draw (deck w) r = Inr (crd, decrement (deck w) crd) \<and>
       Player_draw p r w =
         (None, upd_player p (\<lambda>pl. pl\<lparr>cards := setitem (cards pl) crd (getitem (cards pl) crd + 1)\<rparr>)
                  (w\<lparr>deck := decrement (deck w) crd\<rparr>)))"
proof (cases "draw (deck w) r")
  case (Inl e)
  then show ?thesis by (simp add: Player_draw_def)
next
  case (Inr x)
  obtain crd d where x: "x = (crd, d)" by (cases x)
  with Inr have "d = decrement (deck w) crd" by (simp add: draw_Inr)
  with Inr x show ?thesis by (simp add: Player_draw_def)
qed

lemma held_deck_update [simp]: "held (w\<lparr>deck := d\<rparr>) role = held w role"
  by (simp add: held_def)

lemma hand_deck_update [simp]: "hand (w\<lparr>deck := d\<rparr>) p = hand w p"
  by (simp add: hand_def)

lemma in_play_draw:
  assumes "p < length (players w)"
  shows "accounted (snd (Player_draw p r w)) lost role = accounted w lost role"
  using Player_draw_cases[of p r w] assms
  by (auto simp: accounted_def held_upd_player deck_upd_player getitem_decrement getitem_setitem hand_def)

lemma in_play_putback:
  assumes "p < length (players w)"
  shows "accounted (snd (putback p crd w)) lost role = accounted w lost role"
  using assms
  by (auto simp: putback_def accounted_def held_def upd_player_def sum_list_map_update
        getitem_decrement getitem_setitem hand_def)

lemma in_play_lose:
  assumes "p < length (players w)" "lose p crd w = (None, w')"
  shows "accounted w' (lost(crd := lost crd + 1)) role = accounted w lost role \<and> deck w' = deck w"
  using assms
  by (auto simp: lose_def accounted_def held_def upd_player_def sum_list_map_update
        getitem_decrement getitem_setitem hand_def split: if_splits)

section \<open>The seating ring\<close>

lemma ring_offset_neq:
  assumes "self < n" "1 \<le> i" "i < n"
  shows "(self + i) mod n \<noteq> (self::nat)"
proof (cases "self + i < n")
  case True
  then show ?thesis using assms by simp
next
  case False
  then have "(self + i) mod n = self + i - n" using assms by (simp add: mod_if)
  then show ?thesis using assms False by simp
qed

lemma ring_offset_full: "self < n \<Longrightarrow> (self + n) mod n = (self::nat)"
  by simp

lemma next_seat_offset:
  "next_seat w ((self + i) mod length (players w)) = (self + Suc i) mod length (players w)"
  by (simp add: next_seat_def mod_Suc_eq)

lemma enum_loop_closed:
  assumes "self < length (players w)" "1 \<le> i" "i \<le> length (players w)"
  shows "enum_loop w sd self i ((self + i) mod length (players w))
         = map (\<lambda>j. (j, (self + j) mod length (players w)))
             (filter (\<lambda>j. \<not> sd \<or> alive w ((self + j) mod length (players w))) [i..<length (players w)])"
  using assms
proof (induction "length (players w) - i" arbitrary: i)
  case 0
  then have "i = length (players w)" by simp
  then show ?case using 0 by (subst enum_loop.simps) simp
next
  case (Suc d)
  then have lt: "i < length (players w)" by simp
  have neq: "(self + i) mod length (players w) \<noteq> self"
    using ring_offset_neq[OF Suc.prems(1) Suc.prems(2) lt] .
  have IH: "enum_loop w sd self (Suc i) ((self + Suc i) mod length (players w))
         = map (\<lambda>j. (j, (self + j) mod length (players w)))
             (filter (\<lambda>j. \<not> sd \<or> alive w ((self + j) mod length (players w))) [Suc i..<length (players w)])"
    using Suc.hyps(1)[of "Suc i"] Suc.hyps(2) Suc.prems lt by simp
  have upt: "[i..<length (players w)] = i # [Suc i..<length (players w)]"
    using lt by (simp add: upt_conv_Cons)
  show ?case
    apply (subst enum_loop.simps)
    using neq lt IH upt by (simp add: next_seat_offset del: upt_Suc)
qed

lemma next_seat_self: "next_seat w self = (self + 1) mod length (players w)"
  by (simp add: next_seat_def)

lemma enum_others_closed:
  assumes "self < length (players w)"
  shows "enum w self True True
         = map (\<lambda>j. (j, (self + j) mod length (players w)))
             (filter (\<lambda>j. alive w ((self + j) mod length (players w))) [1..<length (players w)])"
  using enum_loop_closed[OF assms, of 1 True] assms
  by (simp add: enum_def next_seat_self)

lemma next_alive_loop_closed:
  assumes "self < length (players w)" "1 \<le> i" "i \<le> length (players w)"
  shows "next_alive_loop w self i ((self + i) mod length (players w))
         = (case filter (\<lambda>j. alive w ((self + j) mod length (players w))) [i..<length (players w)] of
              [] \<Rightarrow> Inl PlayerError
            | j # _ \<Rightarrow> Inr ((self + j) mod length (players w)))"
  using assms
proof (induction "length (players w) - i" arbitrary: i)
  case 0
  then have "i = length (players w)" by simp
  then show ?case using 0 by (subst next_alive_loop.simps) simp
next
  case (Suc d)
  then have lt: "i < length (players w)" by simp
  have neq: "(self + i) mod length (players w) \<noteq> self"
    using ring_offset_neq[OF Suc.prems(1) Suc.prems(2) lt] .
  have IH: "next_alive_loop w self (Suc i) ((self + Suc i) mod length (players w))
         = (case filter (\<lambda>j. alive w ((self + j) mod length (players w))) [Suc i..<length (players w)] of
              [] \<Rightarrow> Inl PlayerError
            | j # _ \<Rightarrow> Inr ((self + j) mod length (players w)))"
    using Suc.hyps(1)[of "Suc i"] Suc.hyps(2) Suc.prems lt by simp
  have upt: "[i..<length (players w)] = i # [Suc i..<length (players w)]"
    using lt by (simp add: upt_conv_Cons)
  show ?case
    apply (subst next_alive_loop.simps)
    using neq lt IH upt by (simp add: next_seat_offset del: upt_Suc)
qed

lemma next_alive_closed:
  assumes "self < length (players w)"
  shows "next_alive w self
         = (case filter (\<lambda>j. alive w ((self + j) mod length (players w))) [1..<length (players w)] of
              [] \<Rightarrow> Inl PlayerError
            | j # _ \<Rightarrow> Inr ((self + j) mod length (players w)))"
  using next_alive_loop_closed[OF assms, of 1] assms
  by (simp add: next_alive_def next_seat_self)

section \<open>Coins\<close>

lemma coins_add_coins:
  "p < length (players w) \<Longrightarrow>
   coins (players (add_coins p k w) ! q) = (if q = p then coins (players w ! p) + k else coins (players w ! q))"
  by (simp add: add_coins_def upd_player_def)

lemma map_update_same: "g y = g (xs ! p) \<Longrightarrow> map g (xs[p := y]) = map g xs"
  by (induction xs arbitrary: p) (auto split: nat.splits)

lemma cards_add_coins: "map cards (players (add_coins p k w)) = map cards (players w)"
  by (simp add: add_coins_def upd_player_def map_update_same)

lemma length_add_coins: "length (players (add_coins p k w)) = length (players w)"
  by (simp add: add_coins_def upd_player_def)

lemma deck_add_coins: "deck (add_coins p k w) = deck w"
  by (simp add: add_coins_def upd_player_def)

lemma draw_one: "draw [(DUKE, 1)] r = Inl ValueError"
  by (simp add: draw_def elements_def randint_def)

lemma draw_two: "draw [(DUKE, 1), (CAPTAIN, 1)] r = Inr (DUKE, [(CAPTAIN, 1)])"
  by (simp add: draw_def elements_def randint_def decrement_def getitem_def setitem_def delitem_def)

section \<open>Properties of the game\<close>

subsection \<open>Drawing from the deck\<close>

text \<open>
  C4 (draw from a non-empty deck). The claim: on a non-empty deck \<^verbatim>\<open>draw\<close> can
  return every card of the deck and fails only on an empty deck. The code asks
  \<^verbatim>\<open>randint(0, len(cards) - 1)\<close>, whose upper bound is exclusive: on a deck of one
  card the range is empty and the draw raises, and on a deck of two cards the second
  card is never drawn, whatever the entropy.
\<close>

theorem draw_off_by_one:
  "draw [(DUKE, 1)] r = Inl ValueError
   \<and> draw [(DUKE, 1), (CAPTAIN, 1)] r = Inr (DUKE, [(CAPTAIN, 1)])"
  by (simp add: draw_one draw_two)

subsection \<open>Resolving a Steal\<close>

text \<open>
  C7 (steal bound). For a Steal whose actor and target are different seats and whose
  target holds \<open>c \<ge> 0\<close> coins, \<^verbatim>\<open>resolve_steal\<close> moves exactly \<open>min 2 c\<close> coins
  from the target to the actor, leaves the target's balance non-negative, and touches
  neither the hands nor the deck.
\<close>

theorem steal_bound:
  assumes "actor act < length (players w)" "target act < length (players w)"
    and "actor act \<noteq> target act" "0 \<le> coins (players w ! target act)"
  shows "coins (players (resolve_steal act w) ! actor act)
           = coins (players w ! actor act) + min 2 (coins (players w ! target act))
       \<and> coins (players (resolve_steal act w) ! target act)
           = coins (players w ! target act) - min 2 (coins (players w ! target act))
       \<and> 0 \<le> coins (players (resolve_steal act w) ! target act)
       \<and> map cards (players (resolve_steal act w)) = map cards (players w)
       \<and> deck (resolve_steal act w) = deck w"
  using assms
  by (simp add: resolve_steal_def Let_def coins_add_coins length_add_coins cards_add_coins deck_add_coins)

theorem steal_bound_witness:
  "actor \<lparr>actor = 0, action = STEAL, target = 1\<rparr> < length (players table3)
   \<and> target \<lparr>actor = 0, action = STEAL, target = 1\<rparr> < length (players table3)
   \<and> actor \<lparr>actor = 0, action = STEAL, target = 1\<rparr> \<noteq> target \<lparr>actor = 0, action = STEAL, target = 1\<rparr>
   \<and> 0 \<le> coins (players table3 ! 1)
   \<and> coins (players (resolve_steal \<lparr>actor = 0, action = STEAL, target = 1\<rparr> table3) ! 0) = 4
   \<and> coins (players (resolve_steal \<lparr>actor = 0, action = STEAL, target = 1\<rparr> table3) ! 1) = 0"
proof -
  let ?a = "\<lparr>actor = 0, action = STEAL, target = 1\<rparr>"
  have h1: "actor ?a < length (players table3)" by (simp add: table3_def)
  have h2: "target ?a < length (players table3)" by (simp add: table3_def)
  have h3: "actor ?a \<noteq> target ?a" by simp
  have h4: "0 \<le> coins (players table3 ! target ?a)" by (simp add: table3_def new_player_def)
  have c: "coins (players table3 ! 0) = 2" "coins (players table3 ! 1) = 2"
    by (simp_all add: table3_def new_player_def)
  from steal_bound[OF h1 h2 h3 h4] c h1 h2 h3 h4 show ?thesis by simp
qed

subsection \<open>Returning and losing cards\<close>

lemma table3_simps:
  "length (players table3) = 3"
  "hand table3 0 = [(DUKE, 2)]"
  "hand table3 (Suc 0) = [(AMBASSADOR, 1)]"
  "hand table3 2 = [(CONTESSA, 2)]"
  "deck table3 = [(CAPTAIN, 2), (DUKE, 1)]"
  by (simp_all add: table3_def new_player_def hand_def)

text \<open>
  C10 (putback and lose need a held card). For a player whose hand stores positive
  counts only (the invariant of hands built by the operations themselves): asked for a
  card that is not held, \<^verbatim>\<open>putback\<close> and \<^verbatim>\<open>lose\<close> raise their assertion and leave the
  whole game as it was; asked for a held card, each takes exactly one copy of it out of
  the hand, \<^verbatim>\<open>putback\<close> adds exactly one copy to the deck and \<^verbatim>\<open>lose\<close> leaves the deck
  alone.
\<close>

theorem putback_lose_atomic:
  assumes "p < length (players w)" "counts_ok (hand w p)"
  shows "(\<not> 0 < getitem (hand w p) crd \<longrightarrow>
            putback p crd w = (Some AssertionError, w) \<and> lose p crd w = (Some AssertionError, w))
       \<and> (0 < getitem (hand w p) crd \<longrightarrow>
            fst (putback p crd w) = None
          \<and> (\<forall>k. getitem (hand (snd (putback p crd w)) p) k
                   = getitem (hand w p) k - (if k = crd then 1 else 0))
          \<and> (\<forall>k. getitem (deck (snd (putback p crd w))) k
                   = getitem (deck w) k + (if k = crd then 1 else 0))
          \<and> fst (lose p crd w) = None
          \<and> (\<forall>k. getitem (hand (snd (lose p crd w)) p) k
                   = getitem (hand w p) k - (if k = crd then 1 else 0))
          \<and> deck (snd (lose p crd w)) = deck w)"
  using assms contains_counts_ok[OF assms(2), of crd]
  by (simp add: putback_def lose_def hand_upd_player deck_upd_player getitem_decrement getitem_setitem
        hand_def[symmetric])

theorem putback_lose_atomic_witness:
  "0 < length (players table3) \<and> counts_ok (hand table3 0)
   \<and> \<not> 0 < getitem (hand table3 0) CAPTAIN
   \<and> putback 0 CAPTAIN table3 = (Some AssertionError, table3)
   \<and> lose 0 CAPTAIN table3 = (Some AssertionError, table3)
   \<and> 0 < getitem (hand table3 0) DUKE
   \<and> fst (putback 0 DUKE table3) = None
   \<and> getitem (hand (snd (putback 0 DUKE table3)) 0) DUKE = 1
   \<and> getitem (deck (snd (putback 0 DUKE table3))) DUKE = 2
   \<and> fst (lose 0 DUKE table3) = None
   \<and> getitem (hand (snd (lose 0 DUKE table3)) 0) DUKE = 1
   \<and> deck (snd (lose 0 DUKE table3)) = deck table3"
proof -
  have h1: "0 < length (players table3)" by (simp add: table3_simps)
  have h2: "counts_ok (hand table3 0)" by (simp add: table3_simps counts_ok_def)
  have a: "\<not> 0 < getitem (hand table3 0) CAPTAIN" by (simp add: table3_simps getitem_def)
  have b: "0 < getitem (hand table3 0) DUKE" "getitem (hand table3 0) DUKE = 2"
    "getitem (deck table3) DUKE = 1"
    by (simp_all add: table3_simps getitem_def)
  from putback_lose_atomic[OF h1 h2, of CAPTAIN] putback_lose_atomic[OF h1 h2, of DUKE] h1 h2 a b
  show ?thesis by simp
qed

subsection \<open>Conservation of cards\<close>

lemma Player_draw_moves_one:
  assumes "p < length (players w)" "Player_draw p r w = (None, w')"
  shows "\<exists>c. (\<forall>k. getitem (deck w') k = getitem (deck w) k - (if k = c then 1 else 0))
           \<and> (\<forall>k. getitem (hand w' p) k = getitem (hand w p) k + (if k = c then 1 else 0))"
proof -
  from Player_draw_cases[of p r w] assms(2) obtain c where
    w': "w' = upd_player p (\<lambda>pl. pl\<lparr>cards := setitem (cards pl) c (getitem (cards pl) c + 1)\<rparr>)
                  (w\<lparr>deck := decrement (deck w) c\<rparr>)"
    by auto
  have "(\<forall>k. getitem (deck w') k = getitem (deck w) k - (if k = c then 1 else 0))
      \<and> (\<forall>k. getitem (hand w' p) k = getitem (hand w p) k + (if k = c then 1 else 0))"
    using assms(1) unfolding w'
    by (simp add: deck_upd_player hand_upd_player getitem_decrement getitem_setitem hand_def[symmetric])
  then show ?thesis ..
qed

lemma putback_moves_one:
  assumes "p < length (players w)" "putback p crd w = (None, w')"
  shows "(\<forall>k. getitem (deck w') k = getitem (deck w) k + (if k = crd then 1 else 0))
       \<and> (\<forall>k. getitem (hand w' p) k = getitem (hand w p) k - (if k = crd then 1 else 0))"
  using assms
  by (auto simp: putback_def deck_upd_player hand_upd_player getitem_decrement getitem_setitem
        hand_def[symmetric] split: if_splits)

lemma lose_removes_one:
  assumes "p < length (players w)" "lose p crd w = (None, w')"
  shows "deck w' = deck w
       \<and> (\<forall>k. getitem (hand w' p) k = getitem (hand w p) k - (if k = crd then 1 else 0))"
  using assms
  by (auto simp: lose_def deck_upd_player hand_upd_player getitem_decrement getitem_setitem
        hand_def[symmetric] split: if_splits)

text \<open>
  C5 (conservation). For every role the sum of the deck count, the copies held by all
  players and the tally of copies lost so far is kept by every successful operation:
  \<^verbatim>\<open>draw\<close> moves exactly one card from the deck to the hand, \<^verbatim>\<open>putback\<close> moves exactly
  one card from the hand to the deck, and \<^verbatim>\<open>lose\<close> takes exactly one card out of the
  hand (so the tally of that role grows by one) without touching the deck.
\<close>

theorem card_conservation:
  assumes "p < length (players w)"
  shows "(Player_draw p r w = (None, w1) \<longrightarrow>
            accounted w1 lost role = accounted w lost role
          \<and> (\<exists>c. (\<forall>k. getitem (deck w1) k = getitem (deck w) k - (if k = c then 1 else 0))
                \<and> (\<forall>k. getitem (hand w1 p) k = getitem (hand w p) k + (if k = c then 1 else 0))))
       \<and> (putback p crd w = (None, w2) \<longrightarrow>
            accounted w2 lost role = accounted w lost role
          \<and> (\<forall>k. getitem (deck w2) k = getitem (deck w) k + (if k = crd then 1 else 0))
          \<and> (\<forall>k. getitem (hand w2 p) k = getitem (hand w p) k - (if k = crd then 1 else 0)))
       \<and> (lose p crd w = (None, w3) \<longrightarrow>
            accounted w3 (lost(crd := lost crd + 1)) role = accounted w lost role
          \<and> deck w3 = deck w
          \<and> (\<forall>k. getitem (hand w3 p) k = getitem (hand w p) k - (if k = crd then 1 else 0)))"
proof (intro conjI impI)
  assume d: "Player_draw p r w = (None, w1)"
  from in_play_draw[OF assms, of r lost role] d
  show "accounted w1 lost role = accounted w lost role" by simp
  from Player_draw_moves_one[OF assms d]
  show "\<exists>c. (\<forall>k. getitem (deck w1) k = getitem (deck w) k - (if k = c then 1 else 0))
           \<and> (\<forall>k. getitem (hand w1 p) k = getitem (hand w p) k + (if k = c then 1 else 0))" .
next
  assume d: "putback p crd w = (None, w2)"
  from in_play_putback[OF assms, of crd lost role] d
  show "accounted w2 lost role = accounted w lost role" by simp
  from putback_moves_one[OF assms d]
  show "\<forall>k. getitem (deck w2) k = getitem (deck w) k + (if k = crd then 1 else 0)"
    and "\<forall>k. getitem (hand w2 p) k = getitem (hand w p) k - (if k = crd then 1 else 0)"
    by simp_all
next
  assume d: "lose p crd w = (None, w3)"
  from in_play_lose[OF assms d, of lost role]
  show "accounted w3 (lost(crd := lost crd + 1)) role = accounted w lost role"
    and "deck w3 = deck w" by simp_all
  from lose_removes_one[OF assms d]
  show "\<forall>k. getitem (hand w3 p) k = getitem (hand w p) k - (if k = crd then 1 else 0)" by simp
qed

lemma Player_draw_table3:
  "Player_draw 0 0 table3
     = (None, \<lparr>deck = [(CAPTAIN, 1), (DUKE, 1)],
               players = [new_player 2 [(DUKE, 2), (CAPTAIN, 1)], new_player 2 [(AMBASSADOR, 1)],
                          new_player 2 [(CONTESSA, 2)]]\<rparr>)"
  by code_simp

lemma putback_table3:
  "putback 0 DUKE table3
     = (None, \<lparr>deck = [(CAPTAIN, 2), (DUKE, 2)],
               players = [new_player 2 [(DUKE, 1)], new_player 2 [(AMBASSADOR, 1)],
                          new_player 2 [(CONTESSA, 2)]]\<rparr>)"
  by code_simp

lemma lose_table3:
  "lose 0 DUKE table3
     = (None, \<lparr>deck = [(CAPTAIN, 2), (DUKE, 1)],
               players = [new_player 2 [(DUKE, 1)], new_player 2 [(AMBASSADOR, 1)],
                          new_player 2 [(CONTESSA, 2)]]\<rparr>)"
  by code_simp

theorem card_conservation_witness:
  "0 < length (players table3)
   \<and> fst (Player_draw 0 0 table3) = None
   \<and> accounted (snd (Player_draw 0 0 table3)) (\<lambda>_. 0) CAPTAIN = accounted table3 (\<lambda>_. 0) CAPTAIN
   \<and> fst (putback 0 DUKE table3) = None
   \<and> accounted (snd (putback 0 DUKE table3)) (\<lambda>_. 0) DUKE = accounted table3 (\<lambda>_. 0) DUKE
   \<and> fst (lose 0 DUKE table3) = None
   \<and> accounted (snd (lose 0 DUKE table3)) ((\<lambda>_. 0)(DUKE := 1)) DUKE = accounted table3 (\<lambda>_. 0) DUKE
   \<and> accounted table3 (\<lambda>_. 0) DUKE = 3"
proof -
  have h: "0 < length (players table3)" by (simp add: table3_simps)
  have d: "Player_draw 0 0 table3 = (None, snd (Player_draw 0 0 table3))"
    by (simp add: Player_draw_table3)
  have p: "putback 0 DUKE table3 = (None, snd (putback 0 DUKE table3))"
    by (simp add: putback_table3)
  have l: "lose 0 DUKE table3 = (None, snd (lose 0 DUKE table3))"
    by (simp add: lose_table3)
  have t: "accounted table3 (\<lambda>_. 0) DUKE = 3"
    by (simp add: accounted_def held_def getitem_def table3_def new_player_def)
  have c1: "accounted (snd (Player_draw 0 0 table3)) (\<lambda>_. 0) CAPTAIN = accounted table3 (\<lambda>_. 0) CAPTAIN"
    using card_conservation[OF h, of 0 "snd (Player_draw 0 0 table3)" "\<lambda>_. 0" CAPTAIN] d by blast
  have c2: "accounted (snd (putback 0 DUKE table3)) (\<lambda>_. 0) DUKE = accounted table3 (\<lambda>_. 0) DUKE"
    using card_conservation[OF h, of _ _ "\<lambda>_. 0" DUKE DUKE "snd (putback 0 DUKE table3)"] p by blast
  have c3: "accounted (snd (lose 0 DUKE table3)) ((\<lambda>_. 0)(DUKE := (\<lambda>_. 0) DUKE + 1)) DUKE
              = accounted table3 (\<lambda>_. 0) DUKE"
    using card_conservation[OF h, of _ _ "\<lambda>_. 0" DUKE DUKE _ "snd (lose 0 DUKE table3)"] l by blast
  show ?thesis using h d p l t c1 c2 c3 by (simp add: Player_draw_table3 putback_table3 lose_table3)
qed

subsection \<open>The legal moves of a rich player\<close>

lemma ring_offset_exists:
  assumes "p < n" "q < n" "q \<noteq> (p::nat)"
  shows "\<exists>j. 1 \<le> j \<and> j < n \<and> (p + j) mod n = q"
proof (cases "p < q")
  case True
  then have "1 \<le> q - p \<and> q - p < n \<and> (p + (q - p)) mod n = q" using assms by auto
  then show ?thesis by blast
next
  case False
  then have lt: "q < p" using assms by simp
  have e: "p + (n + q - p) = n + q" using assms lt by simp
  have "(p + (n + q - p)) mod n = q" unfolding e using assms by simp
  moreover have "1 \<le> n + q - p" "n + q - p < n" using assms lt by simp_all
  ultimately show ?thesis by blast
qed

lemma ring_offset_inj:
  assumes "p < n" "i < n" "j < n" "(p + i) mod n = (p + j) mod (n::nat)"
  shows "i = j"
proof -
  have "\<And>a b. a < n \<Longrightarrow> b < n \<Longrightarrow> a \<le> b \<Longrightarrow> (p + a) mod n = (p + b) mod n \<Longrightarrow> a = b"
  proof -
    fix a b assume a: "a < n" "b < n" "a \<le> b" "(p + a) mod n = (p + b) mod n"
    then have "(p + b - (p + a)) mod n = 0"
      by (metis add_le_cancel_left mod_eq_dvd_iff_nat dvd_eq_mod_eq_0)
    then have "(b - a) mod n = 0" by simp
    then show "a = b" using a by simp
  qed
  then show ?thesis using assms by (metis nat_le_linear)
qed

text \<open>
  C2 (must coup). In a Start state whose player holds at least 10 coins, the legal
  moves are the list of \<open>(COUP, j)\<close> for the offsets \<open>j\<close> of the living other seats, in
  seating order: no move is listed twice, every living other player is the target of
  exactly one of them, and every listed move is a Coup on a living other player.
\<close>

theorem must_coup:
  assumes "player < length (players w)" "10 \<le> coins (players w ! player)"
  shows "Start_action_mask w player
           = map (\<lambda>j. (COUP, j))
               (filter (\<lambda>j. alive w ((player + j) mod length (players w))) [1..<length (players w)])
       \<and> distinct (Start_action_mask w player)
       \<and> (\<forall>q. q < length (players w) \<and> q \<noteq> player \<and> alive w q \<longrightarrow>
             (\<exists>!j. (COUP, j) \<in> set (Start_action_mask w player)
                  \<and> (player + j) mod length (players w) = q))
       \<and> (\<forall>a j. (a, j) \<in> set (Start_action_mask w player) \<longrightarrow>
             a = COUP \<and> (player + j) mod length (players w) \<noteq> player
           \<and> alive w ((player + j) mod length (players w)))"
proof -
  let ?n = "length (players w)"
  let ?js = "filter (\<lambda>j. alive w ((player + j) mod ?n)) [1..<?n]"
  have m: "Start_action_mask w player = map (\<lambda>j. (COUP, j)) ?js"
    using assms by (simp add: Start_action_mask_def enum_others_closed comp_def)
  have d: "distinct (Start_action_mask w player)"
    unfolding m by (simp add: distinct_map inj_on_def)
  have mem: "\<And>a j. (a, j) \<in> set (Start_action_mask w player)
               \<longleftrightarrow> a = COUP \<and> 1 \<le> j \<and> j < ?n \<and> alive w ((player + j) mod ?n)"
    unfolding m by auto
  have u: "\<forall>q. q < ?n \<and> q \<noteq> player \<and> alive w q \<longrightarrow>
             (\<exists>!j. (COUP, j) \<in> set (Start_action_mask w player) \<and> (player + j) mod ?n = q)"
  proof (intro allI impI)
    fix q assume q: "q < ?n \<and> q \<noteq> player \<and> alive w q"
    then obtain j where j: "1 \<le> j" "j < ?n" "(player + j) mod ?n = q"
      using ring_offset_exists[OF assms(1), of q] by blast
    show "\<exists>!j. (COUP, j) \<in> set (Start_action_mask w player) \<and> (player + j) mod ?n = q"
    proof (rule ex1I[of _ j])
      show "(COUP, j) \<in> set (Start_action_mask w player) \<and> (player + j) mod ?n = q"
        using j q by (simp add: mem)
    next
      fix i assume "(COUP, i) \<in> set (Start_action_mask w player) \<and> (player + i) mod ?n = q"
      then have "i < ?n" "(player + i) mod ?n = (player + j) mod ?n" using j by (simp_all add: mem)
      then show "i = j" using ring_offset_inj[OF assms(1) _ j(2)] by blast
    qed
  qed
  have o: "\<forall>a j. (a, j) \<in> set (Start_action_mask w player) \<longrightarrow>
             a = COUP \<and> (player + j) mod ?n \<noteq> player \<and> alive w ((player + j) mod ?n)"
    using ring_offset_neq[OF assms(1)] by (auto simp: mem)
  from m d u o show ?thesis by blast
qed

theorem must_coup_witness:
  "0 < length (players rich3) \<and> 10 \<le> coins (players rich3 ! 0)
   \<and> Start_action_mask rich3 0 = [(COUP, 2)]
   \<and> \<not> alive rich3 1 \<and> alive rich3 2"
proof -
  have h1: "0 < length (players rich3)" by (simp add: rich3_def)
  have h2: "10 \<le> coins (players rich3 ! 0)" by (simp add: rich3_def new_player_def)
  have a: "\<not> alive rich3 1" "alive rich3 2" "alive rich3 0" "length (players rich3) = 3"
    by (simp_all add: rich3_def new_player_def alive_def hand_def total_def)
  have u: "[1..<3] = [1, 2]" by (simp add: upt_rec)
  from must_coup[OF h1 h2] have "Start_action_mask rich3 0 = [(COUP, 2)]"
    using a u by simp
  then show ?thesis using h1 h2 a by simp
qed

subsection \<open>The block-challenge round\<close>

lemma alive_upd_player:
  assumes "\<And>pl. cards (f pl) = cards pl"
  shows "alive (upd_player p f w) q = alive w q"
proof -
  have "cards ((players w)[p := f (players w ! p)] ! q) = cards (players w ! q)"
  proof (cases "q = p")
    case True
    then show ?thesis using assms
      by (cases "p < length (players w)") (simp_all add: list_update_beyond)
  next
    case False
    then show ?thesis by simp
  qed
  then show ?thesis by (simp add: alive_def hand_def upd_player_def)
qed

lemma next_alive_upd_player:
  assumes "\<And>pl. cards (f pl) = cards pl" "q < length (players w)"
  shows "next_alive (upd_player p f w) q = next_alive w q"
proof -
  have "q < length (players (upd_player p f w))" using assms(2) by (simp add: length_upd_player)
  from next_alive_closed[OF this] next_alive_closed[OF assms(2)]
  show ?thesis
    by (simp add: length_upd_player alive_upd_player[of f, OF assms(1)] cong: list.case_cong)
qed

lemma filter_upt_first:
  "filter P [i..<n] = j # rest \<Longrightarrow> i \<le> j \<and> j < n \<and> P j \<and> (\<forall>k. i \<le> k \<and> k < j \<longrightarrow> \<not> P k)"
proof (induction "n - i" arbitrary: i)
  case 0
  then show ?case by simp
next
  case (Suc d)
  then have lt: "i < n" by simp
  then have upt: "[i..<n] = i # [Suc i..<n]" by (simp add: upt_conv_Cons)
  show ?case
  proof (cases "P i")
    case True
    then have "j = i" using Suc.prems upt by simp
    then show ?thesis using True lt by auto
  next
    case False
    then have "filter P [Suc i..<n] = j # rest" using Suc.prems upt by simp
    moreover have "d = n - Suc i" using Suc.hyps(2) by simp
    ultimately have "Suc i \<le> j \<and> j < n \<and> P j \<and> (\<forall>k. Suc i \<le> k \<and> k < j \<longrightarrow> \<not> P k)"
      using Suc.hyps(1) by blast
    then show ?thesis using False by (metis Suc_leD le_neq_implies_less Suc_leI)
  qed
qed

lemma next_alive_first:
  assumes "q < length (players w)" "next_alive w q = Inr nxt"
  shows "nxt \<noteq> q \<and> alive w nxt
       \<and> (\<exists>j. 1 \<le> j \<and> j < length (players w) \<and> nxt = (q + j) mod length (players w)
             \<and> (\<forall>i. 1 \<le> i \<and> i < j \<longrightarrow> \<not> alive w ((q + i) mod length (players w))))"
proof -
  let ?n = "length (players w)"
  let ?P = "\<lambda>j. alive w ((q + j) mod ?n)"
  from assms(2) next_alive_closed[OF assms(1)]
  obtain j rest where f: "filter ?P [1..<?n] = j # rest" and n: "nxt = (q + j) mod ?n"
    by (auto split: list.splits)
  from filter_upt_first[OF f]
  have j: "1 \<le> j" "j < ?n" "?P j" "\<forall>k. 1 \<le> k \<and> k < j \<longrightarrow> \<not> ?P k" by simp_all
  have "nxt \<noteq> q" using ring_offset_neq[OF assms(1) j(1) j(2)] n by simp
  then show ?thesis using j n by blast
qed

text \<open>
  C3 (who answers a block), as amended. A block declared in ForeignAidBlock or in
  TargetBlock opens a BlockChallenge round whose first responder is the blocker. A Pass
  by the responder \<open>q\<close> hands the round to the next alive seat after \<open>q\<close> in seating
  order (the first alive seat met walking the ring from \<open>q\<close>), unless that seat is the
  actor: then the round is over and the turn ends with the block standing.
\<close>

theorem block_challenge_round:
  "ForeignAidBlock_step p act chl BLOCK_FOREIGN_AID w
     = (Inr (BlockChallenge p \<lparr>blocker = p, block_action = BLOCK_FOREIGN_AID\<rparr> act chl), w)
   \<and> (mv \<noteq> BLOCK_PASS \<longrightarrow>
        TargetBlock_step p act chl mv w
          = (Inr (BlockChallenge p \<lparr>blocker = p, block_action = mv\<rparr> act chl), w))
   \<and> (q < length (players w) \<and> next_alive w q = Inr nxt \<longrightarrow>
        fst (BlockChallenge_step q block act chl CHALLENGE_PASS r w)
          = (if nxt = actor act then Inr (EndTurn act chl (Some block) None None)
             else Inr (BlockChallenge nxt block act chl))
      \<and> nxt \<noteq> q \<and> alive w nxt
      \<and> (\<exists>j. 1 \<le> j \<and> j < length (players w) \<and> nxt = (q + j) mod length (players w)
            \<and> (\<forall>i. 1 \<le> i \<and> i < j \<longrightarrow> \<not> alive w ((q + i) mod length (players w)))))"
proof (intro conjI impI)
  show "ForeignAidBlock_step p act chl BLOCK_FOREIGN_AID w
     = (Inr (BlockChallenge p \<lparr>blocker = p, block_action = BLOCK_FOREIGN_AID\<rparr> act chl), w)"
    by (simp add: ForeignAidBlock_step_def)
next
  assume "mv \<noteq> BLOCK_PASS"
  then show "TargetBlock_step p act chl mv w
          = (Inr (BlockChallenge p \<lparr>blocker = p, block_action = mv\<rparr> act chl), w)"
    by (simp add: TargetBlock_step_def)
next
  assume a: "q < length (players w) \<and> next_alive w q = Inr nxt"
  then have "next_alive (upd_player q (\<lambda>pl. pl\<lparr>challenge_passed := True\<rparr>) w) q = Inr nxt"
    by (simp add: next_alive_upd_player)
  then show "fst (BlockChallenge_step q block act chl CHALLENGE_PASS r w)
          = (if nxt = actor act then Inr (EndTurn act chl (Some block) None None)
             else Inr (BlockChallenge nxt block act chl))"
    by (simp add: BlockChallenge_step_def Let_def)
  from a next_alive_first[of q w nxt]
  show "nxt \<noteq> q" "alive w nxt"
    "\<exists>j. 1 \<le> j \<and> j < length (players w) \<and> nxt = (q + j) mod length (players w)
            \<and> (\<forall>i. 1 \<le> i \<and> i < j \<longrightarrow> \<not> alive w ((q + i) mod length (players w)))"
    by simp_all
qed

text \<open>
  C3 as stated fails: player 1 blocks player 0's Foreign Aid and the state that follows
  is a BlockChallenge whose responder is player 1, the blocker.
\<close>

theorem blocker_polled_first:
  "step (ForeignAidBlock 1 aid_act None) BLOCK_FOREIGN_AID 0 0 0 table3
     = (Inr (BlockChallenge 1 \<lparr>blocker = 1, block_action = BLOCK_FOREIGN_AID\<rparr> aid_act None),
        table3)"
  by (simp add: ForeignAidBlock_step_def)

theorem block_challenge_round_witness:
  "step (ForeignAidBlock 1 aid_act None) BLOCK_FOREIGN_AID 0 0 0 table3
     = (Inr (BlockChallenge 1 duke_block aid_act None), table3)
   \<and> BLOCK_STEAL_CAP \<noteq> BLOCK_PASS
   \<and> TargetBlock_step 1 aid_act None BLOCK_STEAL_CAP table3
        = (Inr (BlockChallenge 1 \<lparr>blocker = 1, block_action = BLOCK_STEAL_CAP\<rparr> aid_act None), table3)
   \<and> 1 < length (players table3) \<and> next_alive table3 1 = Inr 2
   \<and> fst (BlockChallenge_step 1 duke_block aid_act None CHALLENGE_PASS 0 table3)
        = Inr (BlockChallenge 2 duke_block aid_act None)
   \<and> 2 < length (players table3) \<and> next_alive table3 2 = Inr 0
   \<and> fst (BlockChallenge_step 2 duke_block aid_act None CHALLENGE_PASS 0 table3)
        = Inr (EndTurn aid_act None (Some duke_block) None None)"
proof -
  have n1: "1 < length (players table3)" "2 < length (players table3)"
    by (simp_all add: table3_simps)
  have n2: "next_alive table3 1 = Inr 2" by code_simp
  have n3: "next_alive table3 2 = Inr 0" by code_simp
  have a: "actor aid_act = 0" by (simp add: aid_act_def)
  note t = block_challenge_round[of 1 aid_act None table3 BLOCK_STEAL_CAP 1 2 duke_block 0]
  note u = block_challenge_round[of 1 aid_act None table3 BLOCK_STEAL_CAP 2 0 duke_block 0]
  from t u n1 n2 n3 a show ?thesis by (simp add: duke_block_def)
qed

subsection \<open>The terminal state\<close>

lemma Start_step_not_GameOver: "fst (Start_step p mv tgt w) \<noteq> Inr GameOver"
  by (simp add: Start_step_def Let_def split: sum.splits)

lemma Challenge_step_not_GameOver: "fst (Challenge_step p act mv r1 r2 w) \<noteq> Inr GameOver"
  by (simp add: Challenge_step_def Let_def split: sum.splits option.splits prod.splits)

lemma ChallengeResolve_step_not_GameOver:
  "fst (ChallengeResolve_step p act chl mv r1 r2 w) \<noteq> Inr GameOver"
  by (simp add: ChallengeResolve_step_def Let_def split: sum.splits option.splits prod.splits)

lemma ForeignAidBlock_step_not_GameOver: "fst (ForeignAidBlock_step p act chl mv w) \<noteq> Inr GameOver"
  by (simp add: ForeignAidBlock_step_def Let_def split: sum.splits option.splits prod.splits)

lemma TargetBlock_step_not_GameOver: "fst (TargetBlock_step p act chl mv w) \<noteq> Inr GameOver"
  by (simp add: TargetBlock_step_def Let_def split: sum.splits option.splits prod.splits)

lemma BlockChallenge_step_not_GameOver:
  "fst (BlockChallenge_step p block act chl mv r w) \<noteq> Inr GameOver"
  by (simp add: BlockChallenge_step_def Let_def split: sum.splits option.splits prod.splits)

lemma BlockChallengeResolve_step_not_GameOver:
  "fst (BlockChallengeResolve_step p block bchl act chl mv w) \<noteq> Inr GameOver"
  by (simp add: BlockChallengeResolve_step_def toEndTurn_def Let_def
        split: sum.splits option.splits prod.splits)

lemma ActionResolve_step_not_GameOver:
  "fst (ActionResolve_step p act chl block bchl mv w) \<noteq> Inr GameOver"
  by (simp add: ActionResolve_step_def split: sum.splits option.splits prod.splits)

lemma ExchangeResolve_step_not_GameOver: "fst (ExchangeResolve_step p act chl mv w) \<noteq> Inr GameOver"
  by (simp add: ExchangeResolve_step_def split: sum.splits option.splits prod.splits)

lemma ExchangeTwoResolve_step_not_GameOver:
  "fst (ExchangeTwoResolve_step p act chl mv w) \<noteq> Inr GameOver"
  by (simp add: ExchangeTwoResolve_step_def split: sum.splits option.splits prod.splits)

text \<open>
  C8 (GameOver), as amended. No step of a state other than GameOver produces GameOver,
  whatever the move, the entropy and the game; GameOver steps to itself and leaves the
  game unchanged.
\<close>

theorem GameOver_only_self_loop:
  "(t \<noteq> GameOver \<longrightarrow> fst (step t mv tgt r1 r2 w) \<noteq> Inr GameOver)
   \<and> step GameOver mv tgt r1 r2 w = (Inr GameOver, w)"
  by (cases t)
     (simp_all add: Start_step_not_GameOver Challenge_step_not_GameOver
        ChallengeResolve_step_not_GameOver ForeignAidBlock_step_not_GameOver
        TargetBlock_step_not_GameOver BlockChallenge_step_not_GameOver
        BlockChallengeResolve_step_not_GameOver ActionResolve_step_not_GameOver
        ExchangeResolve_step_not_GameOver ExchangeTwoResolve_step_not_GameOver)

theorem GameOver_only_self_loop_witness:
  "Start 0 \<noteq> GameOver
   \<and> fst (step (Start 0) INCOME 0 0 0 table2) \<noteq> Inr GameOver
   \<and> step GameOver INCOME 0 0 0 table2 = (Inr GameOver, table2)"
  using GameOver_only_self_loop[of "Start 0" INCOME 0 0 0 table2] by simp

text \<open>
  C8 as stated fails: in a two-player game player 1 loses the last card to a Coup, one
  player remains alive, and the state reached is EndTurn, whose step raises
  NotImplementedError; GameOver is not reached.
\<close>

theorem last_player_standing_no_GameOver:
  "step (ActionResolve 1 coup_act None None None) LOSE_AMBASSADOR 0 0 0 table2
     = (Inr (EndTurn coup_act None None None None),
        \<lparr>deck = [(CAPTAIN, 2), (DUKE, 1)],
         players = [new_player 0 [(DUKE, 1)], new_player 2 []]\<rparr>)
   \<and> \<not> alive \<lparr>deck = [(CAPTAIN, 2), (DUKE, 1)],
               players = [new_player 0 [(DUKE, 1)], new_player 2 []]\<rparr> 1
   \<and> fst (step (EndTurn coup_act None None None None) INCOME 0 0 0
             \<lparr>deck = [(CAPTAIN, 2), (DUKE, 1)],
              players = [new_player 0 [(DUKE, 1)], new_player 2 []]\<rparr>)
       = Inl NotImplementedError"
  by code_simp

subsection \<open>Pass flags\<close>

text \<open>
  C9 (pass flags). The claim: a Pass in the block-challenge round sets the passing
  player's block-challenge-passed flag. Evaluated on a three-player game where player 1
  passes on the challenge of a block: the step sets \<^verbatim>\<open>challenge_passed\<close> and leaves
  \<^verbatim>\<open>block_challenge_passed\<close> False, so the block-challenge observation (its first three
  entries) shows nobody as having passed.
\<close>

theorem block_challenge_pass_sets_wrong_flag:
  "fst (step (BlockChallenge 1 duke_block aid_act None) CHALLENGE_PASS 0 0 0 table3)
     = Inr (BlockChallenge 2 duke_block aid_act None)
   \<and> challenge_passed
       (players (snd (step (BlockChallenge 1 duke_block aid_act None) CHALLENGE_PASS 0 0 0 table3)) ! 1)
   \<and> \<not> block_challenge_passed
       (players (snd (step (BlockChallenge 1 duke_block aid_act None) CHALLENGE_PASS 0 0 0 table3)) ! 1)
   \<and> observe_challenge (Some \<lparr>chl_type = block_challenge, challenger = 2, loser = 1\<rparr>) 0
        (snd (step (BlockChallenge 1 duke_block aid_act None) CHALLENGE_PASS 0 0 0 table3))
       = [False, False, False, False, False, True, False, True, False]"
  by code_simp

subsection \<open>A Steal whose target has died\<close>

lemma lose_coins:
  assumes "lose p crd w = (None, w1)"
  shows "map coins (players w1) = map coins (players w) \<and> length (players w1) = length (players w)"
  using assms
  by (auto simp: lose_def upd_player_def map_update_same split: if_splits)

lemma nth_coins_lose:
  assumes "lose p crd w = (None, w1)" "q < length (players w)"
  shows "coins (players w1 ! q) = coins (players w ! q)"
proof -
  from lose_coins[OF assms(1)] have m: "map coins (players w1) = map coins (players w)"
    and l: "length (players w1) = length (players w)" by simp_all
  have "map coins (players w1) ! q = map coins (players w) ! q" using m by simp
  then show ?thesis using assms(2) l by simp
qed

text \<open>
  C1 (Steal on a dead target), as amended. When the card loss of ChallengeResolve (the
  challenger being the loser) or of BlockChallengeResolve (the block being defeated)
  leaves the target of an in-flight Steal without cards, the steal is resolved all the
  same and no block is offered: the turn ends in EndTurn and \<open>min 2 c\<close> coins have moved
  from the target, who held \<open>c\<close>, to the actor.
\<close>

theorem steal_dead_target:
  assumes "actor act < length (players w)" "target act < length (players w)"
    and "actor act \<noteq> target act" "action act = STEAL"
    and "act_card mv = Some crd" "lose player crd w = (None, w1)" "\<not> alive w1 (target act)"
  shows "(loser chl \<noteq> actor act \<longrightarrow>
            ChallengeResolve_step player act chl mv r1 r2 w
              = (Inr (EndTurn act (Some chl) None None None), resolve_steal act w1))
       \<and> (loser bchl \<noteq> challenger bchl \<longrightarrow>
            BlockChallengeResolve_step player block bchl act bl_chl mv w
              = (Inr (EndTurn act bl_chl (Some block) (Some bchl) None), resolve_steal act w1))
       \<and> coins (players (resolve_steal act w1) ! actor act)
           = coins (players w ! actor act) + min 2 (coins (players w ! target act))
       \<and> coins (players (resolve_steal act w1) ! target act)
           = coins (players w ! target act) - min 2 (coins (players w ! target act))"
proof -
  have l: "length (players w1) = length (players w)" using lose_coins[OF assms(6)] by simp
  have ca: "coins (players w1 ! actor act) = coins (players w ! actor act)"
    and ct: "coins (players w1 ! target act) = coins (players w ! target act)"
    using nth_coins_lose[OF assms(6)] assms(1,2) by simp_all
  have s: "coins (players (resolve_steal act w1) ! actor act)
             = coins (players w1 ! actor act) + min 2 (coins (players w1 ! target act))
         \<and> coins (players (resolve_steal act w1) ! target act)
             = coins (players w1 ! target act) - min 2 (coins (players w1 ! target act))"
    using assms(1,2,3) l
    by (simp add: resolve_steal_def Let_def coins_add_coins length_add_coins)
  have a: "loser chl \<noteq> actor act \<longrightarrow>
            ChallengeResolve_step player act chl mv r1 r2 w
              = (Inr (EndTurn act (Some chl) None None None), resolve_steal act w1)"
    using assms(4,5,6,7) by (simp add: ChallengeResolve_step_def)
  have b: "loser bchl \<noteq> challenger bchl \<longrightarrow>
            BlockChallengeResolve_step player block bchl act bl_chl mv w
              = (Inr (EndTurn act bl_chl (Some block) (Some bchl) None), resolve_steal act w1)"
    using assms(4,5,6) by (simp add: BlockChallengeResolve_step_def toEndTurn_def)
  from a b s ca ct show ?thesis by simp
qed

text \<open>
  C1 as stated fails: player 1, the target of player 0's Steal, challenges it and loses
  the last card; the step ends the turn and player 0's coins go from 2 to 4, player 1's
  from 2 to 0.
\<close>

theorem steal_from_dead_target_pays:
  "step (ChallengeResolve 1 steal_act steal_chl) LOSE_AMBASSADOR 0 0 0 steal3
     = (Inr (EndTurn steal_act (Some steal_chl) None None None),
        \<lparr>deck = [(CAPTAIN, 1), (DUKE, 1)],
         players = [new_player 4 [(CAPTAIN, 2)], new_player 0 [],
                    new_player 2 [(CONTESSA, 2)]]\<rparr>)
   \<and> coins (players steal3 ! 0) = 2 \<and> coins (players steal3 ! 1) = 2"
  by code_simp

theorem steal_dead_target_witness:
  "actor steal_act < length (players steal3) \<and> target steal_act < length (players steal3)
   \<and> actor steal_act \<noteq> target steal_act \<and> action steal_act = STEAL
   \<and> act_card LOSE_AMBASSADOR = Some AMBASSADOR
   \<and> fst (lose 1 AMBASSADOR steal3) = None
   \<and> \<not> alive (snd (lose 1 AMBASSADOR steal3)) (target steal_act)
   \<and> loser steal_chl \<noteq> actor steal_act
   \<and> fst (ChallengeResolve_step 1 steal_act steal_chl LOSE_AMBASSADOR 0 0 steal3)
        = Inr (EndTurn steal_act (Some steal_chl) None None None)
   \<and> coins (players (resolve_steal steal_act (snd (lose 1 AMBASSADOR steal3))) ! 0) = 4
   \<and> coins (players (resolve_steal steal_act (snd (lose 1 AMBASSADOR steal3))) ! 1) = 0"
proof -
  have h1: "actor steal_act < length (players steal3)" by (simp add: steal_act_def steal3_def)
  have h2: "target steal_act < length (players steal3)" by (simp add: steal_act_def steal3_def)
  have h3: "actor steal_act \<noteq> target steal_act" by (simp add: steal_act_def)
  have h4: "action steal_act = STEAL" by (simp add: steal_act_def)
  have h5: "act_card LOSE_AMBASSADOR = Some AMBASSADOR" by simp
  have f: "fst (lose 1 AMBASSADOR steal3) = None" by code_simp
  then have h6: "lose 1 AMBASSADOR steal3 = (None, snd (lose 1 AMBASSADOR steal3))"
    by (metis prod.collapse)
  have h7: "\<not> alive (snd (lose 1 AMBASSADOR steal3)) (target steal_act)" by code_simp
  have h8: "loser steal_chl \<noteq> actor steal_act" by (simp add: steal_chl_def steal_act_def)
  have c: "coins (players steal3 ! 0) = 2" "coins (players steal3 ! 1) = 2"
    "actor steal_act = 0" "target steal_act = 1"
    by (simp_all add: steal3_def new_player_def steal_act_def)
  from steal_dead_target[OF h1 h2 h3 h4 h5 h6 h7, where chl = steal_chl and ?r1.0 = 0 and ?r2.0 = 0]
  show ?thesis using h1 h2 h3 h4 h5 f h7 h8 c by simp
qed

subsection \<open>Calling a truthful claim\<close>

lemma counts_ok_nonneg: "counts_ok c \<Longrightarrow> 0 \<le> getitem c k"
proof (cases "k \<in> fst ` set c")
  case True
  assume "counts_ok c"
  from getitem_pos[OF this True] show ?thesis by simp
next
  case False
  then show ?thesis by (simp add: notin_getitem)
qed

lemma list_all_update:
  "list_all P c \<Longrightarrow> P (k, v) \<Longrightarrow> list_all P (AList.update k v c)"
  by (induction c) auto

lemma counts_ok_increment: "counts_ok c \<Longrightarrow> counts_ok (setitem c k (getitem c k + 1))"
  using counts_ok_nonneg[of c k] by (simp add: counts_ok_def setitem_def list_all_update)

lemma length_elements: "counts_ok c \<Longrightarrow> int (length (elements c)) = total c"
  by (induction c) (auto simp: counts_ok_def elements_def total_def)

lemma randint_ok:
  assumes "low < high"
  shows "\<exists>idx. randint low high r = Inr idx \<and> low \<le> idx \<and> idx < high"
proof -
  have "0 < high - low" using assms by simp
  then have "0 \<le> int r mod (high - low)" "int r mod (high - low) < high - low"
    by (simp_all only: pos_mod_sign pos_mod_bound)
  then have "low \<le> low + int r mod (high - low)" "low + int r mod (high - low) < high"
    by linarith+
  moreover have "randint low high r = Inr (low + int r mod (high - low))"
    using assms by (simp add: randint_def)
  ultimately show ?thesis by blast
qed

lemma Player_draw_ok:
  assumes "2 \<le> length (elements (deck w))"
  shows "\<exists>c. Player_draw p r w =
           (None, upd_player p (\<lambda>pl. pl\<lparr>cards := setitem (cards pl) c (getitem (cards pl) c + 1)\<rparr>)
                    (w\<lparr>deck := decrement (deck w) c\<rparr>))"
proof -
  have "(0::int) < int (length (elements (deck w))) - 1" using assms by simp
  from randint_ok[OF this, of r] obtain idx where
    "randint 0 (int (length (elements (deck w))) - 1) r = Inr idx" by blast
  then have "Player_draw p r w =
           (None, upd_player p (\<lambda>pl. pl\<lparr>cards := setitem (cards pl) (elements (deck w) ! nat idx)
                                           (getitem (cards pl) (elements (deck w) ! nat idx) + 1)\<rparr>)
                    (w\<lparr>deck := decrement (deck w) (elements (deck w) ! nat idx)\<rparr>))"
    by (simp add: Player_draw_def draw_def Let_def)
  then show ?thesis by (rule exI)
qed

lemma putback_ok:
  assumes "getitem (hand w p) crd \<noteq> 0"
  shows "putback p crd w =
           (None, (upd_player p (\<lambda>pl. pl\<lparr>cards := decrement (cards pl) crd\<rparr>) w)
                    \<lparr>deck := setitem (deck w) crd (getitem (deck w) crd + 1)\<rparr>)"
  using getitem_nonzero_contains[OF assms] by (simp add: putback_def)

lemma prove_and_redraw:
  assumes "a < length (players w)" "getitem (hand w a) crd \<noteq> 0"
    and "keys_ok (hand w a)" "keys_ok (deck w)" "counts_ok (deck w)" "0 < total (deck w)"
  shows "\<exists>w' drawn. prove_or_lose a player crd r w = (Inr player, w')
           \<and> total (hand w' a) = total (hand w a)
           \<and> (\<forall>k. getitem (hand w' a) k
                    = getitem (hand w a) k - (if k = crd then 1 else 0)
                      + (if k = drawn then 1 else 0))"
proof -
  let ?w1 = "(upd_player a (\<lambda>pl. pl\<lparr>cards := decrement (cards pl) crd\<rparr>) w)
               \<lparr>deck := setitem (deck w) crd (getitem (deck w) crd + 1)\<rparr>"
  have pb: "putback a crd w = (None, ?w1)" using putback_ok[OF assms(2)] .
  have h1: "hand ?w1 a = decrement (hand w a) crd"
    using assms(1) by (simp add: hand_upd_player hand_def[symmetric])
  have d1: "deck ?w1 = setitem (deck w) crd (getitem (deck w) crd + 1)" by simp
  have "int (length (elements (deck ?w1))) = total (deck w) + 1"
    using assms(4,5) by (simp add: length_elements counts_ok_increment total_setitem)
  then have "2 \<le> length (elements (deck ?w1))" using assms(6) by linarith
  from Player_draw_ok[OF this, of a r] obtain drawn where
    dr: "Player_draw a r ?w1 =
           (None, upd_player a (\<lambda>pl. pl\<lparr>cards := setitem (cards pl) drawn (getitem (cards pl) drawn + 1)\<rparr>)
                    (?w1\<lparr>deck := decrement (deck ?w1) drawn\<rparr>))" by blast
  let ?w2 = "upd_player a (\<lambda>pl. pl\<lparr>cards := setitem (cards pl) drawn (getitem (cards pl) drawn + 1)\<rparr>)
                    (?w1\<lparr>deck := decrement (deck ?w1) drawn\<rparr>)"
  have l1: "a < length (players (?w1\<lparr>deck := decrement (deck ?w1) drawn\<rparr>))"
    using assms(1) by (simp add: upd_player_def)
  have h2: "hand ?w2 a = setitem (hand ?w1 a) drawn (getitem (hand ?w1 a) drawn + 1)"
    using hand_upd_player[OF l1, of _ a] by (simp add: hand_def)
  have k1: "keys_ok (hand ?w1 a)" unfolding h1 using assms(3) by (rule keys_ok_decrement)
  have t1: "total (hand ?w1 a) = total (hand w a) - 1"
    unfolding h1 using assms(3) by (rule total_decrement)
  have "total (hand ?w2 a) = total (hand ?w1 a) - getitem (hand ?w1 a) drawn
                               + (getitem (hand ?w1 a) drawn + 1)"
    unfolding h2 using k1 by (rule total_setitem)
  then have t: "total (hand ?w2 a) = total (hand w a)" using t1 by linarith
  have g1: "\<And>k. getitem (hand ?w1 a) k
                = (if k = crd then getitem (hand w a) crd - 1 else getitem (hand w a) k)"
    unfolding h1 by (rule getitem_decrement)
  have g2: "\<And>k. getitem (hand ?w2 a) k
                = (if k = drawn then getitem (hand ?w1 a) drawn + 1 else getitem (hand ?w1 a) k)"
    unfolding h2 by (rule getitem_setitem)
  have g: "\<forall>k. getitem (hand ?w2 a) k
             = getitem (hand w a) k - (if k = crd then 1 else 0) + (if k = drawn then 1 else 0)"
  proof
    fix k
    show "getitem (hand ?w2 a) k
             = getitem (hand w a) k - (if k = crd then 1 else 0) + (if k = drawn then 1 else 0)"
      unfolding g2 g1 by (cases "k = drawn"; cases "k = crd"; cases "drawn = crd") simp_all
  qed
  have "prove_or_lose a player crd r w = (Inr player, ?w2)"
    using assms(2) pb dr by (simp add: prove_or_lose_def)
  with t g show ?thesis by blast
qed

text \<open>
  C6 (calling a truthful claim), as amended. When a responder calls a challenge while
  the actor holds the claimed role, on a well-formed hand and a well-formed, non-empty
  deck, the step returns ChallengeResolve with the challenger as loser and responder;
  the actor's hand has as many cards as before, and per role one copy fewer of the
  claimed role and one copy more of the role that was drawn as replacement.
\<close>

theorem challenge_call_on_held_role:
  assumes "actor act < length (players w)" "act_card (action act) = Some crd"
    and "0 < getitem (hand w (actor act)) crd"
    and "keys_ok (hand w (actor act))" "keys_ok (deck w)" "counts_ok (deck w)" "0 < total (deck w)"
  shows "\<exists>w' drawn.
           Challenge_step player act CHALLENGE_CALL r1 r2 w
             = (Inr (ChallengeResolve player act
                       \<lparr>chl_type = action_challenge, challenger = player, loser = player\<rparr>), w')
         \<and> total (hand w' (actor act)) = total (hand w (actor act))
         \<and> (\<forall>k. getitem (hand w' (actor act)) k
                  = getitem (hand w (actor act)) k - (if k = crd then 1 else 0)
                    + (if k = drawn then 1 else 0))"
proof -
  have nz: "getitem (hand w (actor act)) crd \<noteq> 0" using assms(3) by simp
  from prove_and_redraw[OF assms(1) nz assms(4-7), of player r1]
  obtain w' drawn where
    p: "prove_or_lose (actor act) player crd r1 w = (Inr player, w')"
    and t: "total (hand w' (actor act)) = total (hand w (actor act))"
    and g: "\<forall>k. getitem (hand w' (actor act)) k
                  = getitem (hand w (actor act)) k - (if k = crd then 1 else 0)
                    + (if k = drawn then 1 else 0)"
    by blast
  have "Challenge_step player act CHALLENGE_CALL r1 r2 w
          = (Inr (ChallengeResolve player act
                    \<lparr>chl_type = action_challenge, challenger = player, loser = player\<rparr>), w')"
    using assms(2) p by (simp add: Challenge_step_def)
  with t g show ?thesis by blast
qed

text \<open>
  C6 as stated fails: player 0 holds two Dukes and claims Tax, player 1 calls; the Duke
  goes back to the deck and the replacement drawn is a Captain, so the hand that held
  two Dukes holds one Duke and one Captain.
\<close>

theorem redraw_changes_composition:
  "step (Challenge 1 tax_act) CHALLENGE_CALL 0 0 0 table3
     = (Inr (ChallengeResolve 1 tax_act
               \<lparr>chl_type = action_challenge, challenger = 1, loser = 1\<rparr>),
        \<lparr>deck = [(CAPTAIN, 1), (DUKE, 2)],
         players = [new_player 2 [(DUKE, 1), (CAPTAIN, 1)], new_player 2 [(AMBASSADOR, 1)],
                    new_player 2 [(CONTESSA, 2)]]\<rparr>)
   \<and> hand table3 0 = [(DUKE, 2)]"
  by code_simp

theorem challenge_call_on_held_role_witness:
  "actor tax_act < length (players table3) \<and> act_card (action tax_act) = Some DUKE
   \<and> 0 < getitem (hand table3 (actor tax_act)) DUKE
   \<and> keys_ok (hand table3 (actor tax_act)) \<and> keys_ok (deck table3) \<and> counts_ok (deck table3)
   \<and> 0 < total (deck table3)
   \<and> fst (Challenge_step 1 tax_act CHALLENGE_CALL 0 0 table3)
        = Inr (ChallengeResolve 1 tax_act \<lparr>chl_type = action_challenge, challenger = 1, loser = 1\<rparr>)
   \<and> total (hand (snd (Challenge_step 1 tax_act CHALLENGE_CALL 0 0 table3)) (actor tax_act))
        = total (hand table3 (actor tax_act))"
proof -
  have h1: "actor tax_act < length (players table3)" by (simp add: tax_act_def table3_simps)
  have h2: "act_card (action tax_act) = Some DUKE" by (simp add: tax_act_def)
  have h3: "0 < getitem (hand table3 (actor tax_act)) DUKE"
    by (simp add: tax_act_def table3_simps getitem_def)
  have h4: "keys_ok (hand table3 (actor tax_act))" by (simp add: tax_act_def table3_simps keys_ok_def)
  have h5: "keys_ok (deck table3)" by (simp add: table3_simps keys_ok_def)
  have h6: "counts_ok (deck table3)" by (simp add: table3_simps counts_ok_def)
  have h7: "0 < total (deck table3)" by (simp add: table3_simps total_def)
  from challenge_call_on_held_role[OF h1 h2 h3 h4 h5 h6 h7, of 1 0 0]
  obtain w' where
    s: "Challenge_step 1 tax_act CHALLENGE_CALL 0 0 table3
          = (Inr (ChallengeResolve 1 tax_act
                \<lparr>chl_type = action_challenge, challenger = 1, loser = 1\<rparr>), w')"
    and t: "total (hand w' (actor tax_act)) = total (hand table3 (actor tax_act))"
    by blast
  show ?thesis using h1 h2 h3 h4 h5 h6 h7 s t by simp
qed

subsection \<open>Hands keep positive counts\<close>

text \<open>
  The operations on a hand keep the invariant assumed of hands above: whether they
  succeed or raise, a hand of positive counts stays one.
\<close>

lemma list_all_delete: "list_all P c \<Longrightarrow> list_all P (AList.delete k c)"
  by (induction c) auto

lemma counts_ok_decrement:
  assumes "counts_ok c" "contains c k"
  shows "counts_ok (decrement c k)"
proof -
  have pos: "0 < getitem c k" using contains_counts_ok[OF assms(1)] assms(2) by simp
  show ?thesis
  proof (cases "getitem c k = 1")
    case True
    then have "decrement c k = delitem (setitem c k 0) k"
      by (simp add: decrement_def Let_def getitem_setitem)
    then have "decrement c k = AList.delete k c"
      by (simp add: setitem_def delitem_def delete_update_same)
    then show ?thesis using assms(1) by (simp add: counts_ok_def list_all_delete)
  next
    case False
    then have "decrement c k = setitem c k (getitem c k - 1)"
      by (simp add: decrement_def Let_def getitem_setitem)
    then have "decrement c k = AList.update k (getitem c k - 1) c"
      by (simp add: setitem_def)
    then show ?thesis using assms(1) pos False by (simp add: counts_ok_def list_all_update)
  qed
qed

lemma hands_stay_positive:
  assumes "p < length (players w)" "counts_ok (hand w q)"
  shows "counts_ok (hand (snd (Player_draw p r w)) q)
       \<and> counts_ok (hand (snd (putback p crd w)) q)
       \<and> counts_ok (hand (snd (lose p crd w)) q)"
proof (intro conjI)
  show "counts_ok (hand (snd (Player_draw p r w)) q)"
    using Player_draw_cases[of p r w] assms
    by (auto simp: hand_upd_player counts_ok_increment hand_def[symmetric])
next
  show "counts_ok (hand (snd (putback p crd w)) q)"
    using assms
    by (auto simp: putback_def hand_upd_player counts_ok_decrement hand_def[symmetric])
next
  show "counts_ok (hand (snd (lose p crd w)) q)"
    using assms
    by (auto simp: lose_def hand_upd_player counts_ok_decrement hand_def[symmetric])
qed

subsection \<open>The index range of a draw\<close>

text \<open>
  In general: a deck of exactly one card cannot be drawn from, and a draw that returns
  never returns the card at the last position of \<^verbatim>\<open>elements()\<close>.
\<close>

lemma draw_single_card: "length (elements d) = 1 \<Longrightarrow> draw d r = Inl ValueError"
  by (simp add: draw_def randint_def)

lemma draw_never_last:
  assumes "draw d r = Inr (c, d')"
  shows "\<exists>i. i + 1 < length (elements d) \<and> c = elements d ! i"
proof -
  let ?n = "int (length (elements d))"
  have pos: "0 < ?n - 1" using assms by (auto simp: draw_def randint_def Let_def split: if_splits)
  from randint_ok[OF pos, of r] obtain idx where
    i: "randint 0 (?n - 1) r = Inr idx" "0 \<le> idx" "idx < ?n - 1" by blast
  then have "c = elements d ! nat idx" using assms by (simp add: draw_def Let_def)
  moreover have "nat idx + 1 < length (elements d)" using i by linarith
  ultimately show ?thesis by blast
qed

end
